theory Spec2Isabelle
  imports Main
begin

section \<open>The TradeOgre price oracle (tradeogre.cpp)\<close>

text \<open>
  \<open>TradeOgre::getNewPrice\<close> fetches two responses, validates them, multiplies the two
  prices with MPFR at 256 bits and returns a time stamp with the product as a decimal
  string. The function is embedded as the HOL function \<open>getNewPrice\<close> over an explicit
  environment: what the request layer and the system clock hand to the function.
  Exceptions are values of \<open>error\<close>; the two readings of the clock are counted, so that
  the order of the stages is visible in the result.
\<close>

subsection \<open>C strings\<close>

text \<open>
  The price is read with \<open>get_c_str()\<close> and walked with \<open>for(i = price; *i; ++i)\<close>,
  \<open>strchr\<close>, \<open>strlen\<close> and \<open>mpfr_set_str\<close>: all of them stop at the first NUL
  character. A JSON string may hold one (written \<open>\u0000\<close>), so the C string is the
  prefix before it.
\<close>

definition c_str :: "string \<Rightarrow> string" where
  "c_str s = takeWhile (\<lambda>c. c \<noteq> CHR 0x00) s"

text \<open>\<open>isdigit\<close> in the C locale.\<close>

definition isdigit :: "char \<Rightarrow> bool" where
  "isdigit c = (c \<in> set ''0123456789'')"

text \<open>\<open>strchr(s, c)\<close>: the offset of the first \<open>c\<close>, or a null pointer.\<close>

fun strchr :: "string \<Rightarrow> char \<Rightarrow> nat option" where
  "strchr [] c = None"
| "strchr (x # xs) c = (if x = c then Some 0 else map_option Suc (strchr xs c))"

text \<open>
  Lines 105 to 113 and 155 to 163: every character of the price is a digit or a point,
  otherwise the price is invalid.
\<close>

definition price_chars_ok :: "string \<Rightarrow> bool" where
  "price_chars_ok price = list_all (\<lambda>c. isdigit c \<or> c = CHR ''.'') price"

text \<open>
  Lines 126 to 131 and 173 to 178: the number of characters after the first point,
  \<open>strlen(price) - (decimal + sizeof('.') - price)\<close>, or nothing to add without a point.
\<close>

definition fraction_length :: "string \<Rightarrow> nat" where
  "fraction_length price =
     (case strchr price CHR ''.'' of
        None \<Rightarrow> 0
      | Some decimal \<Rightarrow> length price - (decimal + 1))"

text \<open>\<open>precision\<close> is an \<open>unsigned int\<close>: \<open>+=\<close> wraps at 32 bits.\<close>

definition add_precision :: "nat \<Rightarrow> nat \<Rightarrow> nat" where
  "add_precision precision n = (precision + n) mod 2 ^ 32"

subsection \<open>MPFR at 256 bits\<close>

text \<open>
  An MPFR number of precision \<open>PRECISION\<close> is zero or \<open>m * 2 ^ e\<close> with a significand
  \<open>m\<close> of at most 256 bits; the pair \<open>(m, e)\<close> stands for it (\<open>m = 0\<close> for zero). No
  negative number arises: a sign is refused by the character loop before any number is
  read. MPFR rounds correctly: \<open>mpfr_set_str\<close> and \<open>mpfr_mul\<close> with \<open>MPFR_RNDN\<close>
  return the exact value rounded to the nearest representable number, ties to the even
  significand. The exponent range of MPFR (62 bits) is out of reach of any string that
  fits in memory and is not modelled.
\<close>

type_synonym mpfr = "nat \<times> int"

definition PRECISION :: nat where
  "PRECISION = 256"

fun bit_length :: "nat \<Rightarrow> nat" where
  "bit_length n = (if n = 0 then 0 else Suc (bit_length (n div 2)))"

declare bit_length.simps [simp del]

text \<open>The integer nearest to \<open>a / b\<close>, ties to even.\<close>

definition round_half_even :: "nat \<Rightarrow> nat \<Rightarrow> nat" where
  "round_half_even a b =
     (let q = a div b; r = a mod b
      in if 2 * r < b then q
         else if b < 2 * r then q + 1
         else if even q then q else q + 1)"

text \<open>The fraction \<open>n / d\<close> times \<open>2 ^ s\<close>, as a fraction again.\<close>

definition scale2 :: "nat \<Rightarrow> nat \<Rightarrow> int \<Rightarrow> nat \<times> nat" where
  "scale2 n d s = (if 0 \<le> s then (n * 2 ^ nat s, d) else (n, d * 2 ^ nat (- s)))"

text \<open>
  \<open>n / d\<close> rounded to \<open>PRECISION\<close> significant bits: the fraction is scaled into
  \<open>[2 ^ 255, 2 ^ 256)\<close> and rounded to an integer there.
\<close>

definition mpfr_round :: "nat \<Rightarrow> nat \<Rightarrow> mpfr" where
  "mpfr_round n d =
     (if n = 0 then (0, 0)
      else
        let k = int (bit_length n) - int (bit_length d);
            s0 = int PRECISION - k;
            (a0, b0) = scale2 n d s0;
            s = (if 2 ^ PRECISION * b0 \<le> a0 then s0 - 1 else s0);
            (a, b) = scale2 n d s
        in (round_half_even a b, - s))"

definition mpfr_sgn :: "mpfr \<Rightarrow> int" where
  "mpfr_sgn x = (if fst x = 0 then 0 else 1)"

definition mpfr_mul :: "mpfr \<Rightarrow> mpfr \<Rightarrow> mpfr" where
  "mpfr_mul x y =
     (let (a, b) = scale2 (fst x * fst y) 1 (snd x + snd y) in mpfr_round a b)"

text \<open>
  Modelled from the spec: \<open>Common::DECIMAL_NUMBER_BASE\<close> is declared in common.h, which
  is not among the sources; the spec reads the prices as decimal strings.
\<close>

definition DECIMAL_NUMBER_BASE :: nat where
  "DECIMAL_NUMBER_BASE = 10"

definition digit_value :: "char \<Rightarrow> nat" where
  "digit_value c = of_char c - 48"

fun digits_value :: "nat \<Rightarrow> string \<Rightarrow> nat" where
  "digits_value acc [] = acc"
| "digits_value acc (c # cs) = digits_value (acc * DECIMAL_NUMBER_BASE + digit_value c) cs"

text \<open>
  \<open>mpfr_set_str(x, price, 10, MPFR_RNDN)\<close>: \<open>mpfr_strtofr\<close> reads digits with at most
  one point among them and stops at the first other character, a second point
  included; the string is a number when at least one digit was read, and
  \<open>mpfr_set_str\<close> fails (\<open>None\<close>, the return value -1) unless the whole string was
  read. Signs, exponents, white space and the special values all need a character
  that the loop before has refused.
\<close>

definition mpfr_set_str :: "string \<Rightarrow> mpfr option" where
  "mpfr_set_str price =
     (let whole = takeWhile isdigit price;
          rest = dropWhile isdigit price;
          fraction = (case rest of [] \<Rightarrow> [] | c # cs \<Rightarrow>
                        if c = CHR ''.'' then takeWhile isdigit cs else []);
          unread = (case rest of [] \<Rightarrow> [] | c # cs \<Rightarrow>
                        if c = CHR ''.'' then dropWhile isdigit cs else rest)
      in if whole @ fraction = [] \<or> unread \<noteq> [] then None
         else Some (mpfr_round (digits_value 0 (whole @ fraction))
                      (DECIMAL_NUMBER_BASE ^ length fraction)))"

text \<open>Decimal digits of a natural number; \<open>fixed_digits k\<close> gives exactly \<open>k\<close> of them.\<close>

definition digit_char :: "nat \<Rightarrow> char" where
  "digit_char d = ''0123456789'' ! d"

fun to_string :: "nat \<Rightarrow> string" where
  "to_string n =
     (if n < 10 then [digit_char n] else to_string (n div 10) @ [digit_char (n mod 10)])"

declare to_string.simps [simp del]

fun fixed_digits :: "nat \<Rightarrow> nat \<Rightarrow> string" where
  "fixed_digits 0 n = []"
| "fixed_digits (Suc k) n = fixed_digits k (n div 10) @ [digit_char (n mod 10)]"

text \<open>
  The format \<open>%.<precision>R*F\<close> with \<open>MPFR_RNDN\<close>: the value in fixed point with
  \<open>precision\<close> digits after the point, rounded to nearest, ties to even; no point is
  printed when the precision is 0.
\<close>

definition format_fixed :: "nat \<Rightarrow> mpfr \<Rightarrow> string" where
  "format_fixed precision x =
     (let (a, b) = scale2 (fst x * 10 ^ precision) 1 (snd x);
          units = round_half_even a b
      in to_string (units div 10 ^ precision) @
         (if precision = 0 then []
          else CHR ''.'' # fixed_digits precision (units mod 10 ^ precision)))"

definition INT_MAX :: int where
  "INT_MAX = 2147483647"

text \<open>
  \<open>mpfr_snprintf\<close> and \<open>mpfr_sprintf\<close> return the number of characters of the output,
  or a negative value when that number does not fit an \<open>int\<close>.
\<close>

definition mpfr_sprintf :: "nat \<Rightarrow> mpfr \<Rightarrow> int" where
  "mpfr_sprintf precision x =
     (let n = int (length (format_fixed precision x)) in if n \<le> INT_MAX then n else - 1)"

subsection \<open>Trailing zeros and the trailing point (lines 206 to 222)\<close>

text \<open>
  \<open>find_last_not_of(c)\<close>: the index of the last character other than \<open>c\<close>, or \<open>npos\<close>
  (\<open>None\<close>).
\<close>

definition find_last_not_of :: "string \<Rightarrow> char \<Rightarrow> nat option" where
  "find_last_not_of s c =
     (case dropWhile (\<lambda>x. x = c) (rev s) of [] \<Rightarrow> None | x # xs \<Rightarrow> Some (length xs))"

text \<open>
  \<open>result.back()\<close> of an empty string is undefined in C++: \<open>None\<close>. With \<open>npos\<close> the
  length \<open>npos + sizeof('0')\<close> wraps around to 0 and \<open>substr\<close> returns the empty string.
\<close>

definition back_of :: "string \<Rightarrow> char option" where
  "back_of s = (if s = [] then None else Some (last s))"

definition canonicalize :: "string \<Rightarrow> string option" where
  "canonicalize result =
     (if result \<noteq> ''0'' then
        (case back_of result of
           None \<Rightarrow> None
         | Some c \<Rightarrow>
             let result1 =
               (if c = CHR ''0'' then
                  (case find_last_not_of result CHR ''0'' of
                     None \<Rightarrow> []
                   | Some i \<Rightarrow> take (i + 1) result)
                else result)
             in (case back_of result1 of
                   None \<Rightarrow> None
                 | Some c1 \<Rightarrow> Some (if c1 = CHR ''.'' then butlast result1 else result1)))
      else Some result)"

subsection \<open>JSON documents (simdjson's DOM)\<close>

text \<open>
  An object keeps its fields in the order of the document, and \<open>operator[]\<close> returns
  the first field of the given name. An integer is an \<open>int64\<close> when it fits in 64 bits
  signed. The payload of a floating-point number is never read. \<open>size()\<close> is taken as
  the number of elements of the array, which it is for simdjson up to \<open>0xFFFFFF\<close>
  elements (beyond that simdjson reports \<open>0xFFFFFF\<close>).
\<close>

datatype json =
    JNull
  | JBool bool
  | JInt int
  | JDouble
  | JString string
  | JArray "json list"
  | JObject "(string \<times> json) list"

definition is_array :: "json \<Rightarrow> bool" where
  "is_array j = (case j of JArray xs \<Rightarrow> True | _ \<Rightarrow> False)"

definition get_array :: "json \<Rightarrow> json list" where
  "get_array j = (case j of JArray xs \<Rightarrow> xs | _ \<Rightarrow> [])"

text \<open>\<open>json.at(i)\<close>: the element at index \<open>i\<close>, \<open>None\<close> when there is none.\<close>

definition at_index :: "json \<Rightarrow> nat \<Rightarrow> json option" where
  "at_index j i = (if i < length (get_array j) then Some (get_array j ! i) else None)"

definition is_object :: "json \<Rightarrow> bool" where
  "is_object j = (case j of JObject fs \<Rightarrow> True | _ \<Rightarrow> False)"

text \<open>\<open>element[key]\<close>: a result that holds the field or an error (\<open>None\<close>).\<close>

definition at_key :: "json \<Rightarrow> string \<Rightarrow> json option" where
  "at_key j key = (case j of JObject fs \<Rightarrow> map_of fs key | _ \<Rightarrow> None)"

text \<open>
  The type tests of a result are false on an error. The getters are called only after
  the type test of the same field has passed (\<open>||\<close> evaluates from the left), so
  their value on another type is never used.
\<close>

definition is_int64 :: "json option \<Rightarrow> bool" where
  "is_int64 r = (case r of Some (JInt n) \<Rightarrow> - (2 ^ 63) \<le> n \<and> n < 2 ^ 63 | _ \<Rightarrow> False)"

definition is_string :: "json option \<Rightarrow> bool" where
  "is_string r = (case r of Some (JString s) \<Rightarrow> True | _ \<Rightarrow> False)"

definition is_bool :: "json option \<Rightarrow> bool" where
  "is_bool r = (case r of Some (JBool b) \<Rightarrow> True | _ \<Rightarrow> False)"

definition get_int64 :: "json option \<Rightarrow> int" where
  "get_int64 r = (case r of Some (JInt n) \<Rightarrow> n | _ \<Rightarrow> 0)"

definition get_bool :: "json option \<Rightarrow> bool" where
  "get_bool r = (case r of Some (JBool b) \<Rightarrow> b | _ \<Rightarrow> False)"

definition get_c_str :: "json option \<Rightarrow> string" where
  "get_c_str r = (case r of Some (JString s) \<Rightarrow> c_str s | _ \<Rightarrow> [])"

subsection \<open>The system clock\<close>

text \<open>
  A \<open>time_point\<close> of \<open>system_clock\<close> counts ticks since the epoch in a signed 64-bit
  integer; the tick is the nanosecond of libstdc++. \<open>duration_cast\<close> to seconds
  truncates towards zero.
\<close>

definition ticks_per_second :: int where
  "ticks_per_second = 1000000000"

definition duration_cast_seconds :: "int \<Rightarrow> int" where
  "duration_cast_seconds ticks =
     (if 0 \<le> ticks then ticks div ticks_per_second
      else - ((- ticks) div ticks_per_second))"

text \<open>
  The bounds of line 78: \<open>time_point::min()\<close> and \<open>time_point::max()\<close> in seconds.
\<close>

definition min_seconds :: int where
  "min_seconds = duration_cast_seconds (- (2 ^ 63))"

definition max_seconds :: int where
  "max_seconds = duration_cast_seconds (2 ^ 63 - 1)"

subsection \<open>The environment and the errors\<close>

text \<open>
  A response body is empty, or bytes that simdjson refuses, or a document. The clock
  is read at line 88 for the comparison and again at line 91 for the assignment.
\<close>

datatype response = Empty_body | Not_json | Document json

record env =
  mwcRequest :: bool
  btcRequest :: bool
  performRequests :: bool
  mwcResponse :: response
  btcResponse :: response
  now_compared :: int
  now_assigned :: int

datatype error =
    Creating_MWC_request_failed
  | Creating_BTC_request_failed
  | Performing_requests_failed
  | Simdjson_error
  | MWC_response_invalid
  | MWC_most_recent_price_invalid
  | Date_invalid
  | MWC_price_invalid
  | BTC_response_invalid
  | BTC_price_invalid
  | Result_invalid
  | Getting_result_size_failed
  | Getting_result_failed
  | Undefined_behaviour

text \<open>
  Lines 94 to 120 and 144 to 170: the character loop, then \<open>mpfr_set_str\<close> and the
  sign. \<open>None\<close> is the exception "price is invalid" of the feed.
\<close>

definition set_price :: "string \<Rightarrow> mpfr option" where
  "set_price price =
     (if \<not> price_chars_ok price then None
      else case mpfr_set_str price of
             None \<Rightarrow> None
           | Some x \<Rightarrow> if mpfr_sgn x \<le> 0 then None else Some x)"

text \<open>Lines 180 to 225: the product, its rendering and the result.\<close>

definition compose_result :: "mpfr \<Rightarrow> mpfr \<Rightarrow> nat \<Rightarrow> error + string" where
  "compose_result mwcPrice btcPrice precision =
     (let product = mpfr_mul mwcPrice btcPrice
      in if mpfr_sgn product \<le> 0 then Inl Result_invalid
         else
           let resultSize = mpfr_sprintf precision product
           in if resultSize \<le> 0 then Inl Getting_result_size_failed
              else if mpfr_sprintf precision product \<noteq> resultSize
                then Inl Getting_result_failed
              else case canonicalize (format_fixed precision product) of
                     None \<Rightarrow> Inl Undefined_behaviour
                   | Some result \<Rightarrow> Inr result)"

text \<open>Lines 94 to 225: both prices, after the time stamp is settled.\<close>

definition prices :: "json \<Rightarrow> response \<Rightarrow> error + string" where
  "prices mostRecentPrice btc =
     (let price = get_c_str (at_key mostRecentPrice ''price'')
      in case set_price price of
           None \<Rightarrow> Inl MWC_price_invalid
         | Some mwcPrice \<Rightarrow>
             (let precision = add_precision 0 (fraction_length price)
              in case btc of
                   Empty_body \<Rightarrow> Inl Simdjson_error
                 | Not_json \<Rightarrow> Inl Simdjson_error
                 | Document json \<Rightarrow>
                     (if \<not> is_object json \<or> \<not> is_bool (at_key json ''success'') \<or>
                         \<not> get_bool (at_key json ''success'') \<or>
                         \<not> is_string (at_key json ''price'')
                      then Inl BTC_response_invalid
                      else
                        (let price = get_c_str (at_key json ''price'')
                         in case set_price price of
                              None \<Rightarrow> Inl BTC_price_invalid
                            | Some btcPrice \<Rightarrow>
                                compose_result mwcPrice btcPrice
                                  (add_precision precision (fraction_length price))))))"

text \<open>
  The whole function. The result is the exception or the returned pair of time stamp
  (in ticks) and price, together with the number of readings of the clock.
\<close>

definition getNewPrice :: "env \<Rightarrow> (error + int \<times> string) \<times> nat" where
  "getNewPrice e =
     (if \<not> mwcRequest e then (Inl Creating_MWC_request_failed, 0)
      else if \<not> btcRequest e then (Inl Creating_BTC_request_failed, 0)
      else if \<not> performRequests e \<or> mwcResponse e = Empty_body \<or> btcResponse e = Empty_body
        then (Inl Performing_requests_failed, 0)
      else
        (case mwcResponse e of
           Empty_body \<Rightarrow> (Inl Simdjson_error, 0)
         | Not_json \<Rightarrow> (Inl Simdjson_error, 0)
         | Document json \<Rightarrow>
             (if \<not> is_array json \<or> length (get_array json) = 0
              then (Inl MWC_response_invalid, 0)
              else
                (case at_index json (length (get_array json) - 1) of
                   None \<Rightarrow> (Inl Simdjson_error, 0)
                 | Some mostRecentPrice \<Rightarrow>
                     (if \<not> is_object mostRecentPrice \<or>
                         \<not> is_int64 (at_key mostRecentPrice ''date'') \<or>
                         \<not> is_string (at_key mostRecentPrice ''price'')
                      then (Inl MWC_most_recent_price_invalid, 0)
                      else
                        (let date = get_int64 (at_key mostRecentPrice ''date'')
                         in if date < min_seconds \<or> date > max_seconds
                            then (Inl Date_invalid, 0)
                            else
                              (let timestamp = date * ticks_per_second;
                                   future = (now_compared e < timestamp)
                               in ((case prices mostRecentPrice (btcResponse e) of
                                      Inl err \<Rightarrow> Inl err
                                    | Inr result \<Rightarrow>
                                        Inr (if future then now_assigned e else timestamp,
                                             result)),
                                   (if future then 2 else 1)))))))))"

subsection \<open>The words of the specification\<close>

text \<open>
  A decimal string (glossary): only ASCII digits and at most one decimal point, and a
  number, so at least one digit.
\<close>

definition decimal_string :: "string \<Rightarrow> bool" where
  "decimal_string s =
     (set s \<subseteq> set ''0123456789.'' \<and> count_list s CHR ''.'' \<le> 1 \<and>
      (\<exists>c \<in> set s. c \<in> set ''0123456789''))"

text \<open>
  The fractional-digit count of the specification: the characters after the point if
  there is one, else 0.
\<close>

definition fracDigits :: "string \<Rightarrow> nat" where
  "fracDigits s =
     (if CHR ''.'' \<in> set s then length (takeWhile (\<lambda>c. c \<noteq> CHR ''.'') (rev s)) else 0)"

text \<open>
  A canonical decimal string (glossary): a decimal string with no superfluous trailing
  fractional zeros and no dangling decimal point.
\<close>

definition canonical_decimal :: "string \<Rightarrow> bool" where
  "canonical_decimal s =
     (decimal_string s \<and> last s \<noteq> CHR ''.'' \<and>
      \<not> (CHR ''.'' \<in> set s \<and> last s = CHR ''0''))"

subsection \<open>Auxiliary notions\<close>

text \<open>A string without its trailing zeros.\<close>

definition strip_zeros :: "string \<Rightarrow> string" where
  "strip_zeros s = rev (dropWhile (\<lambda>x. x = CHR ''0'') (rev s))"

text \<open>Lines 29 to 52 pass: both requests were created and performed, no body is empty.\<close>

definition transport_ok :: "env \<Rightarrow> bool" where
  "transport_ok e =
     (mwcRequest e \<and> btcRequest e \<and> performRequests e \<and>
      mwcResponse e \<noteq> Empty_body \<and> btcResponse e \<noteq> Empty_body)"

text \<open>
  Environments for the examples: both requests succeed and deliver the two documents;
  the clock gives the two readings.
\<close>

definition observation :: "int \<Rightarrow> string \<Rightarrow> json" where
  "observation date price = JObject [(''date'', JInt date), (''price'', JString price)]"

definition ticker :: "bool \<Rightarrow> string \<Rightarrow> json" where
  "ticker success price = JObject [(''success'', JBool success), (''price'', JString price)]"

definition responses :: "json \<Rightarrow> json \<Rightarrow> int \<Rightarrow> int \<Rightarrow> env" where
  "responses mwc btc now1 now2 =
     \<lparr> mwcRequest = True, btcRequest = True, performRequests = True,
       mwcResponse = Document mwc, btcResponse = Document btc,
       now_compared = now1, now_assigned = now2 \<rparr>"


section \<open>Properties of the parts\<close>

subsection \<open>Price strings\<close>

lemma isdigit_not_point: "isdigit c \<Longrightarrow> c \<noteq> CHR ''.''"
  by (auto simp: isdigit_def)

text \<open>A decimal string passes the character loop, has at most one point and a digit.\<close>

lemma digit_or_point: "c \<in> set ''0123456789.'' \<longleftrightarrow> isdigit c \<or> c = CHR ''.''"
  by (simp add: isdigit_def)

lemma decimal_string_loop:
  "decimal_string s \<longleftrightarrow>
     price_chars_ok s \<and> count_list s CHR ''.'' \<le> 1 \<and> list_ex isdigit s"
proof -
  have "set s \<subseteq> set ''0123456789.'' \<longleftrightarrow> price_chars_ok s"
    unfolding price_chars_ok_def list_all_iff subset_eq
    using digit_or_point by blast
  moreover have "(\<exists>c \<in> set s. c \<in> set ''0123456789'') \<longleftrightarrow> list_ex isdigit s"
    unfolding list_ex_iff isdigit_def ..
  ultimately show ?thesis
    unfolding decimal_string_def
    by (rule arg_cong2 [where f = "\<lambda>a b. a \<and> count_list s CHR ''.'' \<le> 1 \<and> b"])
qed

lemma strchr_None: "c \<notin> set s \<Longrightarrow> strchr s c = None"
  by (induction s) auto

lemma strchr_first: "c \<notin> set w \<Longrightarrow> strchr (w @ c # f) c = Some (length w)"
  by (induction w) auto

lemma digits_no_point: "list_all isdigit w \<Longrightarrow> CHR ''.'' \<notin> set w"
  by (auto simp: list_all_iff dest: isdigit_not_point)

text \<open>A string of digits and points with at most one point is digits, or digits
  around one point.\<close>

lemma one_point_shape:
  assumes "price_chars_ok s" and "count_list s CHR ''.'' \<le> 1"
  shows "list_all isdigit s \<or>
         (\<exists>w f. s = w @ CHR ''.'' # f \<and> list_all isdigit w \<and> list_all isdigit f)"
proof (cases "CHR ''.'' \<in> set s")
  case False
  with assms(1) show ?thesis
    by (auto simp: price_chars_ok_def list_all_iff)
next
  case True
  then obtain w f where s: "s = w @ CHR ''.'' # f" and w: "CHR ''.'' \<notin> set w"
    by (meson split_list_first)
  from assms(2) s have "count_list f CHR ''.'' = 0"
    by simp
  then have f: "CHR ''.'' \<notin> set f"
    by (simp add: count_list_0_iff)
  from assms(1) s w f have "list_all isdigit w" "list_all isdigit f"
    by (auto simp: price_chars_ok_def list_all_iff)
  with s show ?thesis by blast
qed

lemma fraction_length_digits: "list_all isdigit w \<Longrightarrow> fraction_length w = 0"
  by (simp add: fraction_length_def strchr_None digits_no_point)

lemma fraction_length_point:
  "list_all isdigit w \<Longrightarrow> fraction_length (w @ CHR ''.'' # f) = length f"
  by (simp add: fraction_length_def strchr_first digits_no_point)

lemma fracDigits_digits: "list_all isdigit w \<Longrightarrow> fracDigits w = 0"
  by (simp add: fracDigits_def digits_no_point)

lemma fracDigits_point:
  assumes "list_all isdigit f"
  shows "fracDigits (w @ CHR ''.'' # f) = length f"
proof -
  have "takeWhile (\<lambda>c. c \<noteq> CHR ''.'') (rev f @ CHR ''.'' # rev w) = rev f"
    using digits_no_point [OF assms] by (auto simp: takeWhile_tail)
  then show ?thesis
    by (simp add: fracDigits_def)
qed

lemma fraction_length_fracDigits:
  assumes "price_chars_ok s" and "count_list s CHR ''.'' \<le> 1"
  shows "fraction_length s = fracDigits s"
  using one_point_shape [OF assms]
  by (auto simp: fraction_length_digits fraction_length_point fracDigits_digits fracDigits_point)

lemma takeWhile_digits_point:
  "list_all isdigit w \<Longrightarrow> takeWhile isdigit (w @ CHR ''.'' # f) = w"
  by (induction w) (auto simp: isdigit_def)

lemma dropWhile_digits_point:
  "list_all isdigit w \<Longrightarrow> dropWhile isdigit (w @ CHR ''.'' # f) = CHR ''.'' # f"
  by (induction w) (auto simp: isdigit_def)

lemma takeWhile_digits: "list_all isdigit w \<Longrightarrow> takeWhile isdigit w = w"
  by (simp add: list_all_iff)

lemma dropWhile_digits: "list_all isdigit w \<Longrightarrow> dropWhile isdigit w = []"
  by (simp add: list_all_iff)

lemma mpfr_set_str_digits:
  "list_all isdigit w \<Longrightarrow>
   mpfr_set_str w = (if w = [] then None else Some (mpfr_round (digits_value 0 w) 1))"
  by (simp add: mpfr_set_str_def takeWhile_digits dropWhile_digits)

lemma mpfr_set_str_point:
  "list_all isdigit w \<Longrightarrow> list_all isdigit f \<Longrightarrow>
   mpfr_set_str (w @ CHR ''.'' # f) =
     (if w @ f = [] then None
      else Some (mpfr_round (digits_value 0 (w @ f)) (DECIMAL_NUMBER_BASE ^ length f)))"
  by (simp add: mpfr_set_str_def takeWhile_digits_point dropWhile_digits_point
      takeWhile_digits dropWhile_digits)

text \<open>With a second point, the reading stops there and the string is refused.\<close>

lemma mpfr_set_str_unread:
  assumes "list_all isdigit w" and "\<not> list_all isdigit f"
  shows "mpfr_set_str (w @ CHR ''.'' # f) = None"
proof -
  from assms(2) have "dropWhile isdigit f \<noteq> []"
    by (simp add: list_all_iff)
  then show ?thesis
    using assms(1)
    by (simp add: mpfr_set_str_def takeWhile_digits_point dropWhile_digits_point)
qed

lemma first_point_shape:
  assumes "price_chars_ok s" and "\<not> list_all isdigit s"
  shows "\<exists>w f. s = w @ CHR ''.'' # f \<and> list_all isdigit w"
proof -
  from assms have "CHR ''.'' \<in> set s"
    by (auto simp: price_chars_ok_def list_all_iff)
  then obtain w f where s: "s = w @ CHR ''.'' # f" and w: "CHR ''.'' \<notin> set w"
    by (meson split_list_first)
  from assms(1) s w have "list_all isdigit w"
    by (auto simp: price_chars_ok_def list_all_iff)
  with s show ?thesis by blast
qed

lemma mpfr_set_str_decimal_string:
  assumes "price_chars_ok s"
  shows "mpfr_set_str s \<noteq> None \<longleftrightarrow> decimal_string s"
proof (cases "list_all isdigit s")
  case True
  then have "count_list s CHR ''.'' = 0"
    by (simp add: count_list_0_iff digits_no_point)
  moreover from True have "list_ex isdigit s \<longleftrightarrow> s \<noteq> []"
    by (cases s) (auto simp: list_ex_iff list_all_iff)
  ultimately show ?thesis
    using True assms by (simp add: mpfr_set_str_digits decimal_string_loop)
next
  case False
  from first_point_shape [OF assms False]
  obtain w f where s: "s = w @ CHR ''.'' # f" and w: "list_all isdigit w"
    by blast
  have cw: "count_list w CHR ''.'' = 0"
    using w by (simp add: count_list_0_iff digits_no_point)
  show ?thesis
  proof (cases "list_all isdigit f")
    case True
    then have cf: "count_list f CHR ''.'' = 0"
      by (simp add: count_list_0_iff digits_no_point)
    have "list_ex isdigit s \<longleftrightarrow> w @ f \<noteq> []"
      using w True unfolding s
      by (cases w; cases f) (auto simp: list_ex_iff list_all_iff dest: isdigit_not_point)
    then show ?thesis
      using w True assms cw cf unfolding s
      by (simp add: mpfr_set_str_point decimal_string_loop del: append_is_Nil_conv)
  next
    case f: False
    with assms s have "CHR ''.'' \<in> set f"
      by (auto simp: price_chars_ok_def list_all_iff)
    then have "count_list f CHR ''.'' \<noteq> 0"
      by (simp add: count_list_0_iff)
    then have "\<not> decimal_string s"
      unfolding s by (simp add: decimal_string_loop)
    then show ?thesis
      using mpfr_set_str_unread [OF w f] s by simp
  qed
qed

subsection \<open>Rounding to 256 bits keeps a positive number positive\<close>

lemma bit_length_upper: "n < 2 ^ bit_length n"
proof (induction n rule: bit_length.induct)
  case (1 n)
  show ?case
  proof (cases "n = 0")
    case True
    then show ?thesis by (simp add: bit_length.simps)
  next
    case False
    with "1" have "n div 2 < 2 ^ bit_length (n div 2)" by simp
    then have "n < 2 * 2 ^ bit_length (n div 2)" by linarith
    with False show ?thesis by (simp add: bit_length.simps [of n])
  qed
qed

lemma bit_length_lower: "0 < n \<Longrightarrow> 2 ^ (bit_length n - 1) \<le> n"
proof (induction n rule: bit_length.induct)
  case (1 n)
  show ?case
  proof (cases "n div 2 = 0")
    case True
    with "1.prems" have "n = 1" by linarith
    then show ?thesis by (simp add: bit_length.simps)
  next
    case False
    with "1" have ih: "2 ^ (bit_length (n div 2) - 1) \<le> n div 2" by simp
    from False have pos: "0 < bit_length (n div 2)"
      by (simp add: bit_length.simps [of "n div 2"])
    have "bit_length n = Suc (bit_length (n div 2))"
      using "1.prems" by (simp add: bit_length.simps [of n])
    then have "(2::nat) ^ (bit_length n - 1) = 2 * 2 ^ (bit_length (n div 2) - 1)"
      using pos by (cases "bit_length (n div 2)") simp_all
    also have "\<dots> \<le> 2 * (n div 2)" using ih by simp
    also have "\<dots> \<le> n" by simp
    finally show ?thesis .
  qed
qed

lemma bit_length_pos: "0 < n \<Longrightarrow> 0 < bit_length n"
  by (simp add: bit_length.simps [of n])

lemma round_half_even_pos: "0 < b \<Longrightarrow> b \<le> a \<Longrightarrow> 0 < round_half_even a b"
proof -
  assume "0 < b" "b \<le> a"
  then have "0 < a div b" by (simp add: div_greater_zero_iff)
  then show ?thesis by (auto simp: round_half_even_def Let_def)
qed

text \<open>The scaled fraction lies at or above \<open>2 ^ 255\<close>.\<close>

lemma scale2_first:
  assumes "0 < n" and "0 < d"
    and "scale2 n d (int PRECISION - (int (bit_length n) - int (bit_length d))) = (a0, b0)"
  shows "2 ^ (PRECISION - 1) * b0 \<le> a0 \<and> 0 < b0"
proof -
  let ?bn = "bit_length n" and ?bd = "bit_length d"
  let ?s = "int PRECISION - (int ?bn - int ?bd)"
  have n: "2 ^ (?bn - 1) \<le> n" using assms(1) by (rule bit_length_lower)
  have d: "d \<le> 2 ^ ?bd" using bit_length_upper [of d] by simp
  have bn: "0 < ?bn" using assms(1) by (rule bit_length_pos)
  show ?thesis
  proof (cases "0 \<le> ?s")
    case True
    then have ab: "a0 = n * 2 ^ nat ?s" "b0 = d"
      using assms(3) by (auto simp: scale2_def)
    have e: "(?bn - 1) + nat ?s = (PRECISION - 1) + ?bd"
      using True bn by (simp add: PRECISION_def)
    have "2 ^ (PRECISION - 1) * d \<le> 2 ^ (PRECISION - 1) * 2 ^ ?bd"
      using d by simp
    also have "\<dots> = 2 ^ (?bn - 1) * 2 ^ nat ?s"
      using e by (simp add: power_add [symmetric])
    also have "\<dots> \<le> n * 2 ^ nat ?s"
      using n by simp
    finally show ?thesis using ab assms(2) by simp
  next
    case False
    then have ab: "a0 = n" "b0 = d * 2 ^ nat (- ?s)"
      using assms(3) by (auto simp: scale2_def)
    have e: "(PRECISION - 1) + ?bd + nat (- ?s) = ?bn - 1"
      using False bn by (simp add: PRECISION_def)
    have "2 ^ (PRECISION - 1) * (d * 2 ^ nat (- ?s)) \<le> 2 ^ (PRECISION - 1) * (2 ^ ?bd * 2 ^ nat (- ?s))"
      using d by simp
    also have "\<dots> = 2 ^ (?bn - 1)"
      using e by (simp add: power_add [symmetric])
    also have "\<dots> \<le> n" by (rule n)
    finally show ?thesis using ab assms(2) by simp
  qed
qed

lemma scale2_pred:
  assumes "scale2 n d s = (a0, b0)" and "scale2 n d (s - 1) = (a, b)"
  shows "a0 * b = 2 * a * b0"
proof -
  consider "1 \<le> s" | "s = 0" | "s < 0" by linarith
  then show ?thesis
  proof cases
    case 1
    then have "nat s = Suc (nat (s - 1))" by simp
    with 1 assms show ?thesis by (auto simp: scale2_def)
  next
    case 2
    with assms show ?thesis by (auto simp: scale2_def)
  next
    case 3
    then have "nat (- (s - 1)) = Suc (nat (- s))" by simp
    with 3 assms show ?thesis by (auto simp: scale2_def)
  qed
qed

lemma scale2_pos: "0 < d \<Longrightarrow> scale2 n d s = (a, b) \<Longrightarrow> 0 < b"
  by (auto simp: scale2_def split: if_splits)

lemma mpfr_round_pos:
  assumes "0 < n" and "0 < d"
  shows "0 < fst (mpfr_round n d)"
proof -
  define s0 where "s0 = int PRECISION - (int (bit_length n) - int (bit_length d))"
  obtain a0 b0 where ab0: "scale2 n d s0 = (a0, b0)" by (cases "scale2 n d s0")
  obtain a1 b1 where ab1: "scale2 n d (s0 - 1) = (a1, b1)" by (cases "scale2 n d (s0 - 1)")
  from scale2_first [OF assms ab0 [unfolded s0_def]]
  have first: "2 ^ (PRECISION - 1) * b0 \<le> a0" and b0: "0 < b0" by simp_all
  have b1: "0 < b1" using assms(2) ab1 by (rule scale2_pos)
  have one: "(1::nat) \<le> 2 ^ (PRECISION - 1)" by simp
  show ?thesis
  proof (cases "2 ^ PRECISION * b0 \<le> a0")
    case True
    have "2 * (b0 * b1) \<le> 2 ^ PRECISION * b0 * b1"
      by (simp add: PRECISION_def)
    also have "\<dots> \<le> a0 * b1" using True by simp
    also have "\<dots> = 2 * a1 * b0" using ab0 ab1 by (rule scale2_pred)
    finally have "b1 \<le> a1" using b0 by simp
    with b1 have "0 < round_half_even a1 b1" by (rule round_half_even_pos)
    with True assms(1) ab0 ab1 show ?thesis
      by (simp add: mpfr_round_def Let_def s0_def [symmetric])
  next
    case False
    have "b0 \<le> 2 ^ (PRECISION - 1) * b0" using one by simp
    with first have "b0 \<le> a0" by linarith
    with b0 have "0 < round_half_even a0 b0" by (rule round_half_even_pos)
    with False assms(1) ab0 show ?thesis
      by (simp add: mpfr_round_def Let_def s0_def [symmetric])
  qed
qed

lemma mpfr_mul_pos:
  assumes "0 < fst x" and "0 < fst y"
  shows "0 < fst (mpfr_mul x y)"
proof -
  obtain a b where ab: "scale2 (fst x * fst y) 1 (snd x + snd y) = (a, b)"
    by (cases "scale2 (fst x * fst y) 1 (snd x + snd y)")
  from assms have "0 < fst x * fst y" by simp
  with ab have "0 < a" "0 < b" by (auto simp: scale2_def split: if_splits)
  then have "0 < fst (mpfr_round a b)" by (rule mpfr_round_pos)
  with ab show ?thesis by (simp add: mpfr_mul_def)
qed

subsection \<open>The rendered string\<close>

lemma digit_char_cases:
  "d < 10 \<Longrightarrow> d = 0 \<or> d = 1 \<or> d = 2 \<or> d = 3 \<or> d = 4 \<or> d = 5 \<or> d = 6 \<or> d = 7 \<or> d = 8 \<or> d = (9::nat)"
  by arith

lemma isdigit_digit_char: "d < 10 \<Longrightarrow> isdigit (digit_char d)"
  using digit_char_cases [of d] by (auto simp: isdigit_def digit_char_def)

lemma digit_value_digit_char: "d < 10 \<Longrightarrow> digit_value (digit_char d) = d"
  using digit_char_cases [of d] by (auto simp: digit_value_def digit_char_def)

lemma digit_char_zero: "d < 10 \<Longrightarrow> digit_char d = CHR ''0'' \<longleftrightarrow> d = 0"
  using digit_char_cases [of d] by (auto simp: digit_char_def)

lemma to_string_digits: "list_all isdigit (to_string n)"
proof (induction n rule: to_string.induct)
  case (1 n)
  then show ?case
    by (cases "n < 10") (simp_all add: to_string.simps [of n] isdigit_digit_char)
qed

lemma to_string_not_Nil: "to_string n \<noteq> []"
  by (cases "n < 10") (simp_all add: to_string.simps [of n])

lemma to_string_nonzero: "0 < n \<Longrightarrow> \<exists>c \<in> set (to_string n). c \<noteq> CHR ''0''"
proof (induction n rule: to_string.induct)
  case (1 n)
  show ?case
  proof (cases "n < 10")
    case True
    with "1.prems" show ?thesis
      by (simp add: to_string.simps [of n] digit_char_zero)
  next
    case False
    then have "0 < n div 10" by simp
    with "1.IH" False obtain c where "c \<in> set (to_string (n div 10))" "c \<noteq> CHR ''0''"
      by blast
    with False show ?thesis
      by (auto simp: to_string.simps [of n])
  qed
qed

lemma fixed_digits_length: "length (fixed_digits k n) = k"
  by (induction k arbitrary: n) simp_all

lemma fixed_digits_digits: "list_all isdigit (fixed_digits k n)"
  by (induction k arbitrary: n) (simp_all add: isdigit_digit_char)

lemma digits_value_append:
  "digits_value acc (xs @ ys) = digits_value (digits_value acc xs) ys"
  by (induction xs arbitrary: acc) simp_all

lemma digits_value_to_string: "digits_value 0 (to_string n) = n"
proof (induction n rule: to_string.induct)
  case (1 n)
  show ?case
  proof (cases "n < 10")
    case True
    then show ?thesis
      by (simp add: to_string.simps [of n] digit_value_digit_char DECIMAL_NUMBER_BASE_def)
  next
    case False
    with "1.IH" have "digits_value 0 (to_string (n div 10)) = n div 10" by simp
    with False show ?thesis
      by (simp add: to_string.simps [of n] digits_value_append digit_value_digit_char
          DECIMAL_NUMBER_BASE_def)
  qed
qed

lemma digits_value_fixed_digits:
  "digits_value acc (fixed_digits k n) = acc * 10 ^ k + n mod 10 ^ k"
proof (induction k arbitrary: n)
  case 0
  show ?case by simp
next
  case (Suc k)
  have "n mod (10 * 10 ^ k) = 10 * (n div 10 mod 10 ^ k) + n mod 10"
    by (simp add: mod_mult2_eq)
  with Suc show ?case
    by (simp add: digits_value_append digit_value_digit_char DECIMAL_NUMBER_BASE_def
        algebra_simps)
qed

text \<open>The rendered string: digits, and for a positive precision a point and exactly
  that many digits; read as a number without its point it is the rounded value.\<close>

lemma format_fixed_shape:
  assumes "scale2 (fst x * 10 ^ p) 1 (snd x) = (a, b)"
  shows "\<exists>w f. format_fixed p x = w @ (if p = 0 then [] else CHR ''.'' # f) \<and>
           w \<noteq> [] \<and> list_all isdigit w \<and> list_all isdigit f \<and> length f = p \<and>
           (w = ''0'' \<or> (\<exists>c \<in> set w. c \<noteq> CHR ''0'')) \<and>
           digits_value 0 (w @ f) = round_half_even a b"
proof -
  let ?u = "round_half_even a b"
  let ?w = "to_string (?u div 10 ^ p)" and ?f = "fixed_digits p (?u mod 10 ^ p)"
  have "format_fixed p x = ?w @ (if p = 0 then [] else CHR ''.'' # ?f)"
    using assms by (simp add: format_fixed_def Let_def)
  moreover have "?w = ''0'' \<or> (\<exists>c \<in> set ?w. c \<noteq> CHR ''0'')"
  proof (cases "?u div 10 ^ p = 0")
    case True
    then show ?thesis by (simp add: to_string.simps digit_char_def)
  next
    case False
    then show ?thesis using to_string_nonzero [of "?u div 10 ^ p"] by simp
  qed
  moreover have "digits_value 0 (?w @ ?f) = ?u"
    by (simp add: digits_value_append digits_value_to_string digits_value_fixed_digits
        div_mult_mod_eq)
  ultimately show ?thesis
    using to_string_not_Nil to_string_digits fixed_digits_digits fixed_digits_length
    by blast
qed

lemma substr_find_last_not_of:
  "(case find_last_not_of s c of None \<Rightarrow> [] | Some i \<Rightarrow> take (i + 1) s) =
   rev (dropWhile (\<lambda>x. x = c) (rev s))"
proof (cases "dropWhile (\<lambda>x. x = c) (rev s)")
  case Nil
  then show ?thesis by (simp add: find_last_not_of_def del: dropWhile_eq_Nil_conv)
next
  case (Cons y ys)
  define zs where "zs = takeWhile (\<lambda>x. x = c) (rev s)"
  have "rev s = zs @ y # ys"
    using Cons takeWhile_dropWhile_id [of "\<lambda>x. x = c" "rev s"] by (simp add: zs_def)
  then have "rev (rev s) = rev (zs @ y # ys)" by (rule arg_cong)
  then have s: "s = (rev ys @ [y]) @ rev zs" by simp
  have "take (length ys + 1) s = rev ys @ [y]"
    unfolding s by simp
  with Cons show ?thesis by (simp add: find_last_not_of_def)
qed

lemma strip_zeros_id: "s \<noteq> [] \<Longrightarrow> last s \<noteq> CHR ''0'' \<Longrightarrow> strip_zeros s = s"
  by (cases s rule: rev_cases) (simp_all add: strip_zeros_def)

lemma canonicalize_strip:
  assumes "result \<noteq> ''0''"
  shows "canonicalize result =
     (let t = strip_zeros result
      in if t = [] then None else Some (if last t = CHR ''.'' then butlast t else t))"
proof (cases "result = []")
  case True
  then show ?thesis by (simp add: canonicalize_def back_of_def strip_zeros_def)
next
  case False
  show ?thesis
  proof (cases "last result = CHR ''0''")
    case True
    with False assms show ?thesis
      by (simp add: canonicalize_def back_of_def substr_find_last_not_of strip_zeros_def Let_def)
  next
    case l: False
    with False have "strip_zeros result = result" by (simp add: strip_zeros_id)
    with False assms l show ?thesis
      by (simp add: canonicalize_def back_of_def Let_def)
  qed
qed

lemma strip_zeros_point: "strip_zeros (w @ CHR ''.'' # f) = w @ CHR ''.'' # strip_zeros f"
  by (simp add: strip_zeros_def dropWhile_append3)

lemma strip_zeros_last: "strip_zeros s \<noteq> [] \<Longrightarrow> last (strip_zeros s) \<noteq> CHR ''0''"
proof -
  assume "strip_zeros s \<noteq> []"
  then obtain y ys where d: "dropWhile (\<lambda>x. x = CHR ''0'') (rev s) = y # ys"
    by (cases "dropWhile (\<lambda>x. x = CHR ''0'') (rev s)") (simp_all add: strip_zeros_def)
  then have "y \<noteq> CHR ''0''"
    using hd_dropWhile [of "\<lambda>x. x = CHR ''0''" "rev s"] by simp
  with d show ?thesis by (simp add: strip_zeros_def)
qed

lemma strip_zeros_subset: "set (strip_zeros s) \<subseteq> set s"
  by (auto simp: strip_zeros_def dest: set_dropWhileD)

lemma strip_zeros_nonzero: "\<exists>c \<in> set s. c \<noteq> CHR ''0'' \<Longrightarrow> strip_zeros s \<noteq> []"
  by (auto simp: strip_zeros_def)

subsection \<open>The stages of the function\<close>

lemma canonicalize_format_fixed:
  "\<exists>c. canonicalize (format_fixed p x) = Some c \<and> c \<noteq> [] \<and> last c \<noteq> CHR ''.'' \<and>
       \<not> (CHR ''.'' \<in> set c \<and> last c = CHR ''0'')"
proof -
  obtain a b where "scale2 (fst x * 10 ^ p) 1 (snd x) = (a, b)"
    by (cases "scale2 (fst x * 10 ^ p) 1 (snd x)")
  from format_fixed_shape [OF this]
  obtain w f where r: "format_fixed p x = w @ (if p = 0 then [] else CHR ''.'' # f)"
    and w: "w \<noteq> []" "list_all isdigit w"
    and f: "list_all isdigit f"
    and w0: "w = ''0'' \<or> (\<exists>c \<in> set w. c \<noteq> CHR ''0'')"
    by blast
  have wp: "CHR ''.'' \<notin> set w" using w(2) by (rule digits_no_point)
  have lw: "last w \<noteq> CHR ''.''" using w wp last_in_set by metis
  show ?thesis
  proof (cases "p = 0")
    case True
    show ?thesis
    proof (cases "w = ''0''")
      case True
      with \<open>p = 0\<close> r show ?thesis by (simp add: canonicalize_def)
    next
      case False
      with w0 have nz: "\<exists>c \<in> set w. c \<noteq> CHR ''0''" by simp
      then have t: "strip_zeros w \<noteq> []" by (rule strip_zeros_nonzero)
      then have "last (strip_zeros w) \<in> set w"
        using strip_zeros_subset [of w] last_in_set by blast
      with wp have "last (strip_zeros w) \<noteq> CHR ''.''" by metis
      moreover have "CHR ''.'' \<notin> set (strip_zeros w)"
        using wp strip_zeros_subset [of w] by blast
      ultimately show ?thesis
        using False t \<open>p = 0\<close> r by (simp add: canonicalize_strip)
    qed
  next
    case False
    then have r': "format_fixed p x = w @ CHR ''.'' # f" using r by simp
    have ne: "format_fixed p x \<noteq> ''0''" using w(1) r' by (cases w) simp_all
    have fp: "CHR ''.'' \<notin> set f" using f by (rule digits_no_point)
    show ?thesis
    proof (cases "strip_zeros f = []")
      case True
      with ne r' w wp lw show ?thesis
        by (simp add: canonicalize_strip strip_zeros_point butlast_append)
    next
      case nf: False
      then have "last (strip_zeros f) \<in> set f"
        using strip_zeros_subset [of f] last_in_set by blast
      with fp have "last (strip_zeros f) \<noteq> CHR ''.''" by metis
      moreover have "last (strip_zeros f) \<noteq> CHR ''0''" using nf by (rule strip_zeros_last)
      ultimately show ?thesis
        using ne r' nf by (simp add: canonicalize_strip strip_zeros_point)
    qed
  qed
qed

lemma format_fixed_not_Nil: "format_fixed p x \<noteq> []"
  by (simp add: format_fixed_def Let_def split_beta to_string_not_Nil)

lemma set_price_Some:
  "set_price s = Some x \<longleftrightarrow> price_chars_ok s \<and> mpfr_set_str s = Some x \<and> 0 < fst x"
  by (auto simp: set_price_def mpfr_sgn_def split: option.splits)

lemma set_price_None:
  "set_price s = None \<longleftrightarrow>
     \<not> price_chars_ok s \<or> mpfr_set_str s = None \<or> (\<exists>x. mpfr_set_str s = Some x \<and> fst x = 0)"
  by (auto simp: set_price_def mpfr_sgn_def split: option.splits)

lemma compose_result_pos:
  assumes "0 < fst x" and "0 < fst y"
  shows "compose_result x y p =
     (if int (length (format_fixed p (mpfr_mul x y))) \<le> INT_MAX
      then (case canonicalize (format_fixed p (mpfr_mul x y)) of
              None \<Rightarrow> Inl Undefined_behaviour | Some c \<Rightarrow> Inr c)
      else Inl Getting_result_size_failed)"
proof -
  have "0 < fst (mpfr_mul x y)" using assms by (rule mpfr_mul_pos)
  moreover have "0 < length (format_fixed p (mpfr_mul x y))"
    using format_fixed_not_Nil by simp
  ultimately show ?thesis
    by (simp add: compose_result_def mpfr_sgn_def mpfr_sprintf_def Let_def)
qed

lemma getNewPrice_last_observation:
  assumes "transport_ok e"
    and "mwcResponse e = Document (JArray (xs @ [JObject fs]))"
    and "map_of fs ''date'' = Some (JInt d)" and "- (2 ^ 63) \<le> d" and "d < 2 ^ 63"
    and "map_of fs ''price'' = Some (JString s)"
  shows "getNewPrice e =
     (if d < min_seconds \<or> max_seconds < d then (Inl Date_invalid, 0)
      else ((case prices (JObject fs) (btcResponse e) of
               Inl err \<Rightarrow> Inl err
             | Inr result \<Rightarrow>
                 Inr (if now_compared e < d * ticks_per_second then now_assigned e
                      else d * ticks_per_second, result)),
            (if now_compared e < d * ticks_per_second then 2 else 1)))"
  using assms
  by (simp add: getNewPrice_def transport_ok_def is_array_def get_array_def at_index_def
      is_object_def at_key_def is_int64_def is_string_def get_int64_def Let_def)

subsection \<open>Evaluation by parts\<close>

text \<open>
  The numbers of the examples have 256 bits and more. Each stage of the arithmetic is
  evaluated on its own, from the bounds that fix the bit lengths.
\<close>

lemma bit_length_eqI:
  assumes "2 ^ k \<le> n" and "n < 2 ^ Suc k"
  shows "bit_length n = Suc k"
proof -
  have "(0::nat) < 2 ^ k" by simp
  with assms(1) have pos: "0 < n" by linarith
  have "2 ^ (bit_length n - 1) \<le> n" using pos by (rule bit_length_lower)
  with assms(2) have "(2::nat) ^ (bit_length n - 1) < 2 ^ Suc k" by linarith
  then have 1: "bit_length n - 1 < Suc k"
    using power_less_imp_less_exp [of 2 "bit_length n - 1" "Suc k"] by simp
  have "n < 2 ^ bit_length n" by (rule bit_length_upper)
  with assms(1) have "(2::nat) ^ k < 2 ^ bit_length n" by linarith
  then have 2: "k < bit_length n"
    using power_less_imp_less_exp [of 2 k "bit_length n"] by simp
  from 1 2 show ?thesis by linarith
qed

lemma mpfr_round_eqI:
  assumes "2 ^ kn \<le> n" and "n < 2 ^ Suc kn" and "2 ^ kd \<le> d" and "d < 2 ^ Suc kd"
    and "scale2 n d (256 - (int kn - int kd)) = (a0, b0)"
    and "s = (if 2 ^ 256 * b0 \<le> a0 then 256 - (int kn - int kd) - 1
              else 256 - (int kn - int kd))"
    and "scale2 n d s = (a, b)"
    and "round_half_even a b = m"
  shows "mpfr_round n d = (m, - s)"
proof -
  have "(0::nat) < 2 ^ kn" by simp
  with assms(1) have "n \<noteq> 0" by linarith
  moreover have "bit_length n = Suc kn" using assms(1,2) by (rule bit_length_eqI)
  moreover have "bit_length d = Suc kd" using assms(3,4) by (rule bit_length_eqI)
  ultimately show ?thesis
    using assms(5-8) by (simp add: mpfr_round_def PRECISION_def Let_def)
qed

lemma mpfr_mul_eqI:
  assumes "scale2 (m1 * m2) 1 (e1 + e2) = (n, d)" and "mpfr_round n d = z"
  shows "mpfr_mul (m1, e1) (m2, e2) = z"
  using assms by (simp add: mpfr_mul_def)

lemma format_fixed_eqI:
  assumes "scale2 (m * 10 ^ p) 1 e = (a, b)" and "round_half_even a b = u"
    and "to_string (u div 10 ^ p) = w" and "fixed_digits p (u mod 10 ^ p) = f"
  shows "format_fixed p (m, e) = w @ (if p = 0 then [] else CHR ''.'' # f)"
  using assms by (simp add: format_fixed_def)

lemma to_string_less: "n < 10 \<Longrightarrow> to_string n = [digit_char n]"
  by (simp add: to_string.simps)

lemma to_string_ge:
  "10 \<le> n \<Longrightarrow> to_string n = to_string (n div 10) @ [digit_char (n mod 10)]"
  by (simp add: to_string.simps [of n])

lemma fixed_digits_numeral:
  "fixed_digits (numeral k) n =
   fixed_digits (pred_numeral k) (n div 10) @ [digit_char (n mod 10)]"
proof -
  have "numeral k = Suc (pred_numeral k)" by (rule numeral_eq_Suc)
  then show ?thesis by (simp only: fixed_digits.simps)
qed

lemmas digits_eval = to_string_less to_string_ge fixed_digits_numeral digit_char_def

lemmas set_str_eval = mpfr_set_str_def isdigit_def digit_value_def DECIMAL_NUMBER_BASE_def

lemma prices_eqI:
  assumes "get_c_str (at_key mostRecentPrice ''price'') = a"
    and "price_chars_ok a" and "mpfr_set_str a = Some x" and "0 < fst x"
    and "is_object json" and "at_key json ''success'' = Some (JBool True)"
    and "at_key json ''price'' = Some (JString sb)" and "c_str sb = b"
    and "price_chars_ok b" and "mpfr_set_str b = Some y" and "0 < fst y"
    and "add_precision (add_precision 0 (fraction_length a)) (fraction_length b) = p"
    and "format_fixed p (mpfr_mul x y) = r" and "int (length r) \<le> INT_MAX"
    and "canonicalize r = Some c"
  shows "prices mostRecentPrice (Document json) = Inr c"
proof -
  have a: "set_price a = Some x" using assms(2-4) by (simp add: set_price_Some)
  have b: "set_price b = Some y" using assms(9-11) by (simp add: set_price_Some)
  have "compose_result x y p = Inr c"
    using assms(4,11,13-15) by (simp add: compose_result_pos)
  then show ?thesis
    using a b assms(1,5-8,12)
    by (simp add: prices_def is_bool_def get_bool_def is_string_def get_c_str_def)
qed

lemmas round_eval = scale2_def round_half_even_def Let_def

lemma parse_001234: "mpfr_set_str ''0.01234'' =
  Some (91447960396062838497719421120461362106198503089536291855802021546089473264436, - 262)"
proof -
  have "mpfr_round 1234 100000 =
    (91447960396062838497719421120461362106198503089536291855802021546089473264436, - 262)"
    by (rule mpfr_round_eqI [where kn = 10 and kd = 16 and s = 262]) (simp add: round_eval)+
  then show ?thesis by (simp add: set_str_eval)
qed

lemma parse_6500050: "mpfr_set_str ''65000.50'' =
  Some (114845942634127370615079129197040074988044367038863670087383463887120931749888, - 240)"
proof -
  have "mpfr_round 6500050 100 =
    (114845942634127370615079129197040074988044367038863670087383463887120931749888, - 240)"
    by (rule mpfr_round_eqI [where kn = 22 and kd = 6 and s = 240]) (simp add: round_eval)+
  then show ?thesis by (simp add: set_str_eval)
qed

lemma first_example_product:
  "mpfr_mul (91447960396062838497719421120461362106198503089536291855802021546089473264436, - 262)
     (114845942634127370615079129197040074988044367038863670087383463887120931749888, - 240) =
   (90700731654728432216964893074654369622557919312612972088211964439492627058792, - 246)"
  by (rule mpfr_mul_eqI, simp add: scale2_def,
      rule mpfr_round_eqI [where kn = 511 and kd = 502 and s = 246])
     (simp add: round_eval)+

lemma first_example_rendering:
  "format_fixed 7
     (90700731654728432216964893074654369622557919312612972088211964439492627058792, - 246) =
   ''802.1061700''"
  using format_fixed_eqI [where p = 7 and e = "- 246" and u = 8021061700
      and m = 90700731654728432216964893074654369622557919312612972088211964439492627058792,
      OF _ _ refl refl]
  by (simp add: round_eval digits_eval)

lemma first_example_prices:
  "prices (observation 1700000000 ''0.01234'') (Document (ticker True ''65000.50'')) =
   Inr ''802.10617''"
  by (rule prices_eqI [where a = "''0.01234''" and b = "''65000.50''" and p = 7
        and r = "''802.1061700''", OF _ _ parse_001234 _ _ _ _ _ _ parse_6500050])
     (simp add: observation_def ticker_def get_c_str_def c_str_def at_key_def is_object_def
        price_chars_ok_def isdigit_def fraction_length_def add_precision_def INT_MAX_def
        first_example_product first_example_rendering canonicalize_def back_of_def find_last_not_of_def)+

lemma seconds_range: "min_seconds = - 9223372036" "max_seconds = 9223372036"
  by (simp_all add: min_seconds_def max_seconds_def duration_cast_seconds_def
      ticks_per_second_def)

text \<open>
  A date in the accepted range is a time stamp that fits the 64 bits of the clock, so
  the product with the ticks per second does not overflow.
\<close>

lemma timestamp_fits:
  assumes "min_seconds \<le> d" and "d \<le> max_seconds"
  shows "- (2 ^ 63) \<le> d * ticks_per_second \<and> d * ticks_per_second < 2 ^ 63"
  using assms by (simp add: seconds_range ticks_per_second_def)

lemma getNewPrice_single_observation:
  assumes "min_seconds \<le> d" and "d \<le> max_seconds"
  shows "getNewPrice (responses (JArray [observation d a]) btc now1 now2) =
     ((case prices (observation d a) (Document btc) of
         Inl err \<Rightarrow> Inl err
       | Inr result \<Rightarrow>
           Inr (if now1 < d * ticks_per_second then now2 else d * ticks_per_second, result)),
      (if now1 < d * ticks_per_second then 2 else 1))"
proof -
  let ?e = "responses (JArray [observation d a]) btc now1 now2"
  have t: "transport_ok ?e"
    by (simp add: transport_ok_def responses_def)
  have m: "mwcResponse ?e =
      Document (JArray ([] @ [JObject [(''date'', JInt d), (''price'', JString a)]]))"
    by (simp add: responses_def observation_def)
  have b: "- (2 ^ 63) \<le> d" "d < 2 ^ 63"
    using assms by (simp_all add: seconds_range)
  have "getNewPrice ?e =
     (if d < min_seconds \<or> max_seconds < d then (Inl Date_invalid, 0)
      else ((case prices (JObject [(''date'', JInt d), (''price'', JString a)])
                   (btcResponse ?e) of
               Inl err \<Rightarrow> Inl err
             | Inr result \<Rightarrow>
                 Inr (if now_compared ?e < d * ticks_per_second then now_assigned ?e
                      else d * ticks_per_second, result)),
            (if now_compared ?e < d * ticks_per_second then 2 else 1)))"
    by (rule getNewPrice_last_observation [OF t m _ b]) simp_all
  then show ?thesis
    using assms by (simp add: responses_def observation_def split: sum.split)
qed

subsection \<open>Which exceptions the stages can raise\<close>

lemma prices_MWC_price_invalid:
  "set_price (get_c_str (at_key m ''price'')) = None \<Longrightarrow> prices m btc = Inl MWC_price_invalid"
  by (simp add: prices_def)

lemma prices_BTC_response_invalid:
  assumes "set_price (get_c_str (at_key m ''price'')) = Some x"
    and "\<not> get_bool (at_key j ''success'')"
  shows "prices m (Document j) = Inl BTC_response_invalid"
  using assms by (simp add: prices_def)

lemma prices_BTC_price_invalid:
  assumes "set_price (get_c_str (at_key m ''price'')) = Some x"
    and "is_object j" and "at_key j ''success'' = Some (JBool True)"
    and "is_string (at_key j ''price'')"
    and "set_price (get_c_str (at_key j ''price'')) = None"
  shows "prices m (Document j) = Inl BTC_price_invalid"
  using assms by (simp add: prices_def is_bool_def get_bool_def)

lemma compose_result_errors:
  "compose_result x y p = Inl err \<Longrightarrow>
   err = Result_invalid \<or> err = Getting_result_size_failed \<or>
   err = Getting_result_failed \<or> err = Undefined_behaviour"
  by (auto simp: compose_result_def Let_def split: if_splits option.splits)

lemma prices_not_Date_invalid: "prices m btc \<noteq> Inl Date_invalid"
proof
  assume a: "prices m btc = Inl Date_invalid"
  show False
  proof (cases "set_price (get_c_str (at_key m ''price''))")
    case None
    with a show False by (simp add: prices_def)
  next
    case (Some x)
    show False
    proof (cases btc)
      case Empty_body
      with a Some show False by (simp add: prices_def)
    next
      case Not_json
      with a Some show False by (simp add: prices_def)
    next
      case (Document j)
      show False
      proof (cases "set_price (get_c_str (at_key j ''price''))")
        case None
        with a Some Document show False
          by (simp add: prices_def split: if_splits)
      next
        case y: (Some y)
        with a Some Document show False
          by (auto simp: prices_def split: if_splits dest: compose_result_errors)
      qed
    qed
  qed
qed

lemma prices_Inr:
  assumes "prices m btc = Inr c"
  shows "set_price (get_c_str (at_key m ''price'')) \<noteq> None \<and>
         (\<exists>j. btc = Document j \<and> get_bool (at_key j ''success'') \<and>
              set_price (get_c_str (at_key j ''price'')) \<noteq> None)"
proof (cases "set_price (get_c_str (at_key m ''price''))")
  case None
  with assms show ?thesis by (simp add: prices_def)
next
  case (Some x)
  show ?thesis
  proof (cases btc)
    case Empty_body
    with assms Some show ?thesis by (simp add: prices_def)
  next
    case Not_json
    with assms Some show ?thesis by (simp add: prices_def)
  next
    case (Document j)
    with assms Some show ?thesis
      by (cases "set_price (get_c_str (at_key j ''price''))")
         (simp_all add: prices_def split: if_splits)
  qed
qed

text \<open>A returned result comes from the prices of the last element.\<close>

lemma getNewPrice_Inr:
  assumes "fst (getNewPrice e) = Inr (t, c)"
    and "mwcResponse e = Document (JArray (xs @ [m]))"
  shows "prices m (btcResponse e) = Inr c"
  using assms
  by (simp add: getNewPrice_def is_array_def get_array_def at_index_def Let_def
      split: if_splits sum.splits)

lemma getNewPrice_Inr_prices:
  assumes "fst (getNewPrice e) = Inr (t, c)"
  shows "\<exists>m. prices m (btcResponse e) = Inr c"
  using assms
  by (auto simp: getNewPrice_def Let_def
      split: if_splits sum.splits response.splits option.splits)

text \<open>Without a reading of the clock, the exception is one of the first seven.\<close>

lemma getNewPrice_no_reading:
  assumes "snd (getNewPrice e) = 0"
  shows "fst (getNewPrice e) \<in> Inl ` {Creating_MWC_request_failed,
     Creating_BTC_request_failed, Performing_requests_failed, Simdjson_error,
     MWC_response_invalid, MWC_most_recent_price_invalid, Date_invalid}"
  using assms
  by (auto simp: getNewPrice_def Let_def
      split: if_splits response.splits option.splits)

subsection \<open>Decimal strings are read, and positive ones are accepted\<close>

lemma digit_value_pos: "isdigit c \<Longrightarrow> c \<noteq> CHR ''0'' \<Longrightarrow> 0 < digit_value c"
  by (auto simp: isdigit_def digit_value_def)

lemma digits_value_pos:
  "0 < acc \<or> (\<exists>c \<in> set ds. isdigit c \<and> c \<noteq> CHR ''0'') \<Longrightarrow> 0 < digits_value acc ds"
proof (induction ds arbitrary: acc)
  case Nil
  then show ?case by simp
next
  case (Cons d ds)
  show ?case
  proof (cases "0 < acc \<or> (isdigit d \<and> d \<noteq> CHR ''0'')")
    case True
    then have "0 < acc * DECIMAL_NUMBER_BASE + digit_value d"
      by (auto simp: DECIMAL_NUMBER_BASE_def dest: digit_value_pos)
    then show ?thesis using Cons.IH by simp
  next
    case False
    with Cons.prems have "\<exists>c \<in> set ds. isdigit c \<and> c \<noteq> CHR ''0''" by auto
    then show ?thesis using Cons.IH by simp
  qed
qed

lemma set_price_decimal_string:
  assumes "decimal_string a" and "\<exists>c \<in> set a. isdigit c \<and> c \<noteq> CHR ''0''"
  shows "\<exists>x. set_price a = Some x \<and> mpfr_set_str a = Some x \<and> 0 < fst x"
proof -
  from assms(1) have ok: "price_chars_ok a" and one: "count_list a CHR ''.'' \<le> 1"
    by (simp_all add: decimal_string_loop)
  from one_point_shape [OF ok one] show ?thesis
  proof
    assume d: "list_all isdigit a"
    from assms(2) have "a \<noteq> []" by auto
    moreover have "0 < digits_value 0 a" using assms(2) by (simp add: digits_value_pos)
    then have "0 < fst (mpfr_round (digits_value 0 a) 1)" by (simp add: mpfr_round_pos)
    ultimately show ?thesis using d ok by (simp add: set_price_Some mpfr_set_str_digits)
  next
    assume "\<exists>w f. a = w @ CHR ''.'' # f \<and> list_all isdigit w \<and> list_all isdigit f"
    then obtain w f where a: "a = w @ CHR ''.'' # f"
      and w: "list_all isdigit w" and f: "list_all isdigit f" by blast
    from assms(2) a have nz: "\<exists>c \<in> set (w @ f). isdigit c \<and> c \<noteq> CHR ''0''"
      by (auto dest: isdigit_not_point)
    then have ne: "w @ f \<noteq> []" by auto
    have "0 < digits_value 0 (w @ f)" using nz by (simp add: digits_value_pos)
    then have "0 < fst (mpfr_round (digits_value 0 (w @ f)) (DECIMAL_NUMBER_BASE ^ length f))"
      by (simp add: mpfr_round_pos DECIMAL_NUMBER_BASE_def)
    then show ?thesis
      using ne w f ok unfolding a
      by (simp add: set_price_Some mpfr_set_str_point del: append_is_Nil_conv)
  qed
qed

lemma set_price_not_decimal_string:
  assumes "price_chars_ok p" and "\<not> decimal_string p"
  shows "mpfr_set_str p = None" and "set_price p = None"
proof -
  show "mpfr_set_str p = None"
    using mpfr_set_str_decimal_string [OF assms(1)] assms(2) by blast
  then show "set_price p = None" by (simp add: set_price_def)
qed

subsection \<open>Two more products\<close>

lemma parse_10: "mpfr_set_str ''10'' = Some (10 * 2 ^ 252, - 252)"
proof -
  have "mpfr_round 10 1 = (10 * 2 ^ 252, - 252)"
    by (rule mpfr_round_eqI [where kn = 3 and kd = 0 and s = 252]) (simp add: round_eval)+
  then show ?thesis by (simp add: set_str_eval)
qed

lemma product_10_10: "mpfr_mul (10 * 2 ^ 252, - 252) (10 * 2 ^ 252, - 252) = (100 * 2 ^ 249, - 249)"
  by (rule mpfr_mul_eqI, simp add: scale2_def,
      rule mpfr_round_eqI [where kn = 510 and kd = 504 and s = 249])
     (simp add: round_eval)+

lemma render_100: "format_fixed 0 (100 * 2 ^ 249, - 249) = ''100''"
  using format_fixed_eqI [where p = 0 and e = "- 249" and u = 100 and m = "100 * 2 ^ 249",
      OF _ _ refl refl]
  by (simp add: round_eval digits_eval)

lemma canonicalize_100: "canonicalize ''100'' = Some ''1''"
  by (simp add: canonicalize_def back_of_def find_last_not_of_def)

lemma prices_10_10:
  "prices (observation d ''10'') (Document (ticker True ''10'')) = Inr ''1''"
  by (rule prices_eqI [where a = "''10''" and b = "''10''" and p = 0
        and r = "''100''", OF _ _ parse_10 _ _ _ _ _ _ parse_10])
     (simp add: observation_def ticker_def get_c_str_def c_str_def at_key_def is_object_def
        price_chars_ok_def isdigit_def fraction_length_def add_precision_def INT_MAX_def
        product_10_10 [simplified] render_100 [simplified] canonicalize_100)+

lemma parse_2_5: "mpfr_set_str ''2.5'' = Some (10 * 2 ^ 252, - 254)"
proof -
  have "mpfr_round 25 10 = (10 * 2 ^ 252, - 254)"
    by (rule mpfr_round_eqI [where kn = 4 and kd = 3 and s = 254]) (simp add: round_eval)+
  then show ?thesis by (simp add: set_str_eval)
qed

lemma parse_4: "mpfr_set_str ''4'' = Some (2 ^ 255, - 253)"
proof -
  have "mpfr_round 4 1 = (2 ^ 255, - 253)"
    by (rule mpfr_round_eqI [where kn = 2 and kd = 0 and s = 253]) (simp add: round_eval)+
  then show ?thesis by (simp add: set_str_eval)
qed

lemma product_2_5_4: "mpfr_mul (10 * 2 ^ 252, - 254) (2 ^ 255, - 253) = (10 * 2 ^ 252, - 252)"
  by (rule mpfr_mul_eqI, simp add: scale2_def,
      rule mpfr_round_eqI [where kn = 510 and kd = 507 and s = 252])
     (simp add: round_eval)+

lemma render_10_0: "format_fixed 1 (10 * 2 ^ 252, - 252) = ''10.0''"
  using format_fixed_eqI [where p = 1 and e = "- 252" and u = 100 and m = "10 * 2 ^ 252",
      OF _ _ refl refl]
  by (simp add: round_eval digits_eval)

lemma canonicalize_10_0: "canonicalize ''10.0'' = Some ''10''"
  by (simp add: canonicalize_def back_of_def find_last_not_of_def)

lemma prices_2_5_4:
  "prices (observation d ''2.5'') (Document (ticker True ''4'')) = Inr ''10''"
  by (rule prices_eqI [where a = "''2.5''" and b = "''4''" and p = 1
        and r = "''10.0''", OF _ _ parse_2_5 _ _ _ _ _ _ parse_4])
     (simp add: observation_def ticker_def get_c_str_def c_str_def at_key_def is_object_def
        price_chars_ok_def isdigit_def fraction_length_def add_precision_def INT_MAX_def
        product_2_5_4 [simplified] render_10_0 [simplified] canonicalize_10_0)+

section \<open>The claims\<close>

subsection \<open>C8: the observation is the last element\<close>



subsection \<open>C1: example 1\<close>

lemma first_example_result:
  assumes "1700000000 * ticks_per_second \<le> now1"
  shows "getNewPrice (responses (JArray [observation 1700000000 ''0.01234''])
           (ticker True ''65000.50'') now1 now2) =
         (Inr (1700000000 * ticks_per_second, ''802.10617''), 1)"
  using assms
  by (simp add: getNewPrice_single_observation seconds_range first_example_prices)

text \<open>
  C1 as stated fails: for the two responses of example 1 and a clock after the date,
  the returned price is not \<open>802.40617\<close>.
\<close>

theorem example_1_counterexample:
  "fst (getNewPrice (responses (JArray [observation 1700000000 ''0.01234''])
          (ticker True ''65000.50'') 1762000000000000000 1762000000000000001))
   \<noteq> Inr (1700000000 * ticks_per_second, ''802.40617'')"
  using first_example_result [of 1762000000000000000 1762000000000000001]
  by (simp add: ticks_per_second_def)

text \<open>
  C1, amended. For the feed-A response \<open>[{"date":1700000000,"price":"0.01234"}]\<close> and
  the feed-B response \<open>{"success":true,"price":"65000.50"}\<close>, with a clock that is not
  before the date when it is compared, \<open>getNewPrice\<close> returns the time stamp of
  1700000000 seconds after the epoch and the price \<open>802.10617\<close>, after one reading of
  the clock; the precision is 7 and the product is rendered as \<open>802.1061700\<close>.
\<close>

theorem example_1:
  assumes "1700000000 * ticks_per_second \<le> now1"
  shows "getNewPrice (responses (JArray [observation 1700000000 ''0.01234''])
           (ticker True ''65000.50'') now1 now2) =
         (Inr (1700000000 * ticks_per_second, ''802.10617''), 1) \<and>
         add_precision (add_precision 0 (fraction_length ''0.01234''))
           (fraction_length ''65000.50'') = 7 \<and>
         (case set_price ''0.01234'' of
            None \<Rightarrow> False
          | Some x \<Rightarrow>
              (case set_price ''65000.50'' of
                 None \<Rightarrow> False
               | Some y \<Rightarrow> format_fixed 7 (mpfr_mul x y) = ''802.1061700''))"
proof -
  have 1: "add_precision (add_precision 0 (fraction_length ''0.01234''))
           (fraction_length ''65000.50'') = 7"
    by (simp add: add_precision_def fraction_length_def)
  have a: "set_price ''0.01234'' =
    Some (91447960396062838497719421120461362106198503089536291855802021546089473264436, - 262)"
    by (simp add: set_price_Some parse_001234 price_chars_ok_def isdigit_def)
  have b: "set_price ''65000.50'' =
    Some (114845942634127370615079129197040074988044367038863670087383463887120931749888, - 240)"
    by (simp add: set_price_Some parse_6500050 price_chars_ok_def isdigit_def)
  show ?thesis
    using first_example_result [OF assms] 1
    by (simp add: a b first_example_product first_example_rendering)
qed

theorem example_1_witness:
  "getNewPrice (responses (JArray [observation 1700000000 ''0.01234''])
           (ticker True ''65000.50'') 1762000000000000000 1762000000000000001) =
         (Inr (1700000000000000000, ''802.10617''), 1)"
  using example_1 [of 1762000000000000000 1762000000000000001]
  by (simp add: ticks_per_second_def)

subsection \<open>C2: trailing zeros of an integer\<close>

text \<open>
  C2 holds of the specification and not of the code. With the feed-A price \<open>10\<close> and
  the feed-B price \<open>10\<close> the precision is 0 and the product is rendered as \<open>100\<close>;
  lines 210 to 214 strip the zeros of this integer as well and the function returns
  the price \<open>1\<close>.
\<close>

theorem integer_product_loses_zeros:
  "getNewPrice (responses (JArray [observation 1700000000 ''10''])
     (ticker True ''10'') 1762000000000000000 1762000000000000001) =
   (Inr (1700000000000000000, ''1''), 1) \<and>
   (case set_price ''10'' of
      None \<Rightarrow> False
    | Some x \<Rightarrow> format_fixed 0 (mpfr_mul x x) = ''100'') \<and>
   canonicalize ''100'' = Some ''1''"
proof -
  have "set_price ''10'' = Some (10 * 2 ^ 252, - 252)"
    by (simp add: set_price_Some parse_10 price_chars_ok_def isdigit_def)
  then show ?thesis
    by (simp add: getNewPrice_single_observation seconds_range prices_10_10
        ticks_per_second_def product_10_10 [simplified] render_100 [simplified]
        canonicalize_100)
qed

theorem integer_product_loses_zeros_witness:
  "fst (getNewPrice (responses (JArray [observation 1700000000 ''10''])
     (ticker True ''10'') 1762000000000000000 1762000000000000001)) \<noteq>
   Inr (1700000000000000000, ''100'')"
  using integer_product_loses_zeros by simp

subsection \<open>C7: canonicalizing a canonical string\<close>

text \<open>
  C7 holds of the specification and not of the code. The string \<open>10\<close> is canonical (it
  is what the step returns for the rendering \<open>10.0\<close>), and the step applied to it
  returns \<open>1\<close>.
\<close>

theorem canonical_integer_changed:
  "canonicalize ''10.0'' = Some ''10'' \<and> canonical_decimal ''10'' \<and>
   canonicalize ''10'' = Some ''1''"
  by (simp add: canonicalize_def back_of_def find_last_not_of_def canonical_decimal_def
      decimal_string_loop price_chars_ok_def isdigit_def)

theorem canonical_integer_changed_witness: "canonicalize ''10'' \<noteq> Some ''10''"
  using canonical_integer_changed by simp

subsection \<open>C4: the range of the date\<close>

text \<open>
  C4 as stated fails: the date 9223372036 is the maximum of the time type in seconds,
  and it is accepted; the time stamp is in the future and becomes the second reading
  of the clock.
\<close>

theorem maximum_date_counterexample:
  "max_seconds = 9223372036 \<and>
   getNewPrice (responses (JArray [observation 9223372036 ''2.5''])
     (ticker True ''4'') 1762000000000000000 1762000000000000001) =
   (Inr (1762000000000000001, ''10''), 2)"
  by (simp add: getNewPrice_single_observation seconds_range prices_2_5_4
      ticks_per_second_def)

text \<open>
  C4, amended. When the last element of feed A is an object with an integer date and
  a string price: a date below the minimum or above the maximum of the time type in
  seconds is rejected with the exception "date is invalid", before the clock is read;
  a date from the minimum to the maximum, both included, never is.
\<close>

theorem date_range:
  assumes "transport_ok e"
    and "mwcResponse e = Document (JArray (xs @ [JObject fs]))"
    and "map_of fs ''date'' = Some (JInt d)" and "- (2 ^ 63) \<le> d" and "d < 2 ^ 63"
    and "map_of fs ''price'' = Some (JString s)"
  shows "(d < min_seconds \<or> max_seconds < d \<longrightarrow> getNewPrice e = (Inl Date_invalid, 0)) \<and>
         (min_seconds \<le> d \<and> d \<le> max_seconds \<longrightarrow> fst (getNewPrice e) \<noteq> Inl Date_invalid)"
  using prices_not_Date_invalid [of "JObject fs" "btcResponse e"]
  by (auto simp: getNewPrice_last_observation [OF assms] split: sum.splits)

theorem date_range_witness:
  "getNewPrice (responses (JArray [observation 9223372037 ''2.5''])
     (ticker True ''4'') 1762000000000000000 1762000000000000001) =
   (Inl Date_invalid, 0) \<and>
   fst (getNewPrice (responses (JArray [observation (- 9223372036) ''2.5''])
     (ticker True ''4'') 1762000000000000000 1762000000000000001)) \<noteq> Inl Date_invalid"
proof -
  have 1: "transport_ok (responses (JArray [observation d ''2.5'']) (ticker True ''4'')
      1762000000000000000 1762000000000000001)" for d
    by (simp add: transport_ok_def responses_def)
  have 2: "mwcResponse (responses (JArray [observation d ''2.5'']) (ticker True ''4'')
      1762000000000000000 1762000000000000001) =
    Document (JArray ([] @ [JObject [(''date'', JInt d), (''price'', JString ''2.5'')]]))" for d
    by (simp add: responses_def observation_def)
  show ?thesis
    using date_range [OF 1 2, of 9223372037 9223372037 "''2.5''"]
      date_range [OF 1 2, of "- 9223372036" "- 9223372036" "''2.5''"]
    by (simp add: seconds_range)
qed

subsection \<open>C5: the time stamp\<close>

text \<open>
  C5 as stated fails: there is no single "now". The clock is read at line 88 for the
  comparison and again at line 91 for the assignment. With the date 1800000000 and
  the readings 1799999999999999999 and 1800000000000000005 the returned time stamp is
  the second reading: it is not the date, not the reading the date was compared with,
  and it is after that reading.
\<close>

theorem two_readings_counterexample:
  "getNewPrice (responses (JArray [observation 1800000000 ''2.5''])
     (ticker True ''4'') 1799999999999999999 1800000000000000005) =
   (Inr (1800000000000000005, ''10''), 2) \<and>
   1800000000 * ticks_per_second = 1800000000000000000 \<and>
   \<not> (1800000000000000005::int) \<le> 1799999999999999999"
  by (simp add: getNewPrice_single_observation seconds_range prices_2_5_4
      ticks_per_second_def)

text \<open>
  C5, amended. For a date in the range and two prices that are accepted, the function
  returns, and the time stamp is the date in ticks after the epoch when that is not
  after the clock as read for the comparison (one reading); otherwise it is the next
  reading of the clock (two readings). So the time stamp is not after the reading it
  was compared with, or it is the later reading itself; with a clock that does not
  run backwards between the two readings it is not after the later reading.
\<close>

theorem timestamp_clamped:
  assumes "transport_ok e"
    and "mwcResponse e = Document (JArray (xs @ [JObject fs]))"
    and "map_of fs ''date'' = Some (JInt d)"
    and "min_seconds \<le> d" and "d \<le> max_seconds"
    and "map_of fs ''price'' = Some (JString s)"
    and "prices (JObject fs) (btcResponse e) = Inr c"
  shows "(d * ticks_per_second \<le> now_compared e \<longrightarrow>
            getNewPrice e = (Inr (d * ticks_per_second, c), 1)) \<and>
         (now_compared e < d * ticks_per_second \<longrightarrow>
            getNewPrice e = (Inr (now_assigned e, c), 2)) \<and>
         (\<exists>t. fst (getNewPrice e) = Inr (t, c) \<and>
              (t \<le> now_compared e \<or> t = now_assigned e) \<and>
              (now_compared e \<le> now_assigned e \<longrightarrow> t \<le> now_assigned e))"
proof -
  have "- (2 ^ 63) \<le> d" "d < 2 ^ 63"
    using assms(4,5) by (simp_all add: seconds_range)
  from getNewPrice_last_observation [OF assms(1-3) this assms(6)] assms(4,5,7)
  have "getNewPrice e =
      (Inr (if now_compared e < d * ticks_per_second then now_assigned e
            else d * ticks_per_second, c),
       if now_compared e < d * ticks_per_second then 2 else 1)"
    by simp
  then show ?thesis by auto
qed

theorem timestamp_clamped_witness:
  "getNewPrice (responses (JArray [observation 1700000000 ''2.5''])
     (ticker True ''4'') 1762000000000000000 1762000000000000001) =
   (Inr (1700000000000000000, ''10''), 1) \<and>
   getNewPrice (responses (JArray [observation 1800000000 ''2.5''])
     (ticker True ''4'') 1762000000000000000 1762000000000000001) =
   (Inr (1762000000000000001, ''10''), 2)"
proof -
  have 1: "transport_ok (responses (JArray [observation d ''2.5'']) (ticker True ''4'')
      1762000000000000000 1762000000000000001)" for d
    by (simp add: transport_ok_def responses_def)
  have 2: "mwcResponse (responses (JArray [observation d ''2.5'']) (ticker True ''4'')
      1762000000000000000 1762000000000000001) =
    Document (JArray ([] @ [JObject [(''date'', JInt d), (''price'', JString ''2.5'')]]))" for d
    by (simp add: responses_def observation_def)
  have 3: "map_of [(''date'', JInt d), (''price'', JString ''2.5'')] ''date'' = Some (JInt d)"
    "map_of [(''date'', JInt d), (''price'', JString ''2.5'')] ''price'' =
      Some (JString ''2.5'')" for d
    by simp_all
  have 4: "min_seconds \<le> 1700000000" "1700000000 \<le> max_seconds"
    "min_seconds \<le> 1800000000" "1800000000 \<le> max_seconds"
    by (simp_all add: seconds_range)
  have 5: "prices (JObject [(''date'', JInt d), (''price'', JString ''2.5'')])
      (btcResponse (responses (JArray [observation d ''2.5'']) (ticker True ''4'')
         1762000000000000000 1762000000000000001)) = Inr ''10''" for d
    using prices_2_5_4 [of d] by (simp add: responses_def observation_def)
  from timestamp_clamped [OF 1 2 3(1) 4(1,2) 3(2) 5]
    timestamp_clamped [OF 1 2 3(1) 4(3,4) 3(2) 5]
  show ?thesis
    by (simp add: responses_def ticks_per_second_def)
qed

subsection \<open>C9: an unsuccessful feed B\<close>

lemma prices_unsuccessful:
  "prices m (Document (ticker False p)) = Inl MWC_price_invalid \<or>
   prices m (Document (ticker False p)) = Inl BTC_response_invalid"
proof (cases "set_price (get_c_str (at_key m ''price''))")
  case None
  then show ?thesis by (simp add: prices_MWC_price_invalid)
next
  case (Some x)
  then have "prices m (Document (ticker False p)) = Inl BTC_response_invalid"
    by (rule prices_BTC_response_invalid) (simp add: ticker_def at_key_def get_bool_def)
  then show ?thesis by simp
qed

text \<open>An exception that is not one of the first seven comes from the prices.\<close>

lemma getNewPrice_Inl_prices:
  assumes "fst (getNewPrice e) = Inl err"
  shows "err \<in> {Creating_MWC_request_failed, Creating_BTC_request_failed,
           Performing_requests_failed, Simdjson_error, MWC_response_invalid,
           MWC_most_recent_price_invalid, Date_invalid} \<or>
         (\<exists>m. prices m (btcResponse e) = Inl err)"
  using assms
  by (auto simp: getNewPrice_def Let_def
      split: if_splits sum.splits response.splits option.splits)

text \<open>
  C9 as stated fails. With the feed-B response \<open>{"success":false,"price":"100"}\<close> and
  a valid feed A the clock has been read when the response is rejected: feed A is
  handled to its end, the time stamp included, before feed B is looked at. With an
  empty array as feed A the exception is the one of feed A.
\<close>

theorem unsuccessful_feed_B_counterexample:
  "getNewPrice (responses (JArray [observation 1700000000 ''2.5''])
     (ticker False ''100'') 1762000000000000000 1762000000000000001) =
   (Inl BTC_response_invalid, 1) \<and>
   getNewPrice (responses (JArray [])
     (ticker False ''100'') 1762000000000000000 1762000000000000001) =
   (Inl MWC_response_invalid, 0)"
proof -
  have "set_price ''2.5'' = Some (10 * 2 ^ 252, - 254)"
    by (simp add: set_price_Some parse_2_5 price_chars_ok_def isdigit_def)
  then have "prices (observation 1700000000 ''2.5'') (Document (ticker False ''100'')) =
      Inl BTC_response_invalid"
    by (intro prices_BTC_response_invalid [where x = "(10 * 2 ^ 252, - 254)"])
       (simp_all add: observation_def ticker_def at_key_def get_c_str_def c_str_def
          get_bool_def)
  then show ?thesis
    by (simp add: getNewPrice_single_observation seconds_range ticks_per_second_def)
       (simp add: getNewPrice_def responses_def is_array_def get_array_def)
qed

text \<open>
  C9, amended. With the feed-B response \<open>{"success":false,"price":"100"}\<close> no result is
  returned: the exception is "BTC response is invalid" or one that is raised before
  feed B is looked at. When feed A passes its checks (requests, array, last element,
  date and price), it is "BTC response is invalid", raised after the clock was read
  for the time stamp of feed A; and whenever that exception is raised, the clock has
  been read.
\<close>

theorem unsuccessful_feed_B:
  assumes "btcResponse e = Document (ticker False ''100'')"
  shows "fst (getNewPrice e) \<in> Inl ` {Creating_MWC_request_failed,
           Creating_BTC_request_failed, Performing_requests_failed, Simdjson_error,
           MWC_response_invalid, MWC_most_recent_price_invalid, Date_invalid,
           MWC_price_invalid, BTC_response_invalid} \<and>
         (fst (getNewPrice e) = Inl BTC_response_invalid \<longrightarrow> 1 \<le> snd (getNewPrice e)) \<and>
         (transport_ok e \<and> mwcResponse e = Document (JArray (xs @ [JObject fs])) \<and>
          map_of fs ''date'' = Some (JInt d) \<and> min_seconds \<le> d \<and> d \<le> max_seconds \<and>
          map_of fs ''price'' = Some (JString s) \<and> set_price (c_str s) \<noteq> None \<longrightarrow>
          getNewPrice e =
            (Inl BTC_response_invalid, if now_compared e < d * ticks_per_second then 2 else 1))"
proof (intro conjI impI)
  show "fst (getNewPrice e) \<in> Inl ` {Creating_MWC_request_failed,
           Creating_BTC_request_failed, Performing_requests_failed, Simdjson_error,
           MWC_response_invalid, MWC_most_recent_price_invalid, Date_invalid,
           MWC_price_invalid, BTC_response_invalid}"
  proof (cases "fst (getNewPrice e)")
    case (Inl err)
    from getNewPrice_Inl_prices [OF this]
    consider "err \<in> {Creating_MWC_request_failed, Creating_BTC_request_failed,
           Performing_requests_failed, Simdjson_error, MWC_response_invalid,
           MWC_most_recent_price_invalid, Date_invalid}"
      | m where "prices m (btcResponse e) = Inl err"
      by blast
    then have "err \<in> {Creating_MWC_request_failed,
           Creating_BTC_request_failed, Performing_requests_failed, Simdjson_error,
           MWC_response_invalid, MWC_most_recent_price_invalid, Date_invalid,
           MWC_price_invalid, BTC_response_invalid}"
    proof cases
      case 1
      then show ?thesis by auto
    next
      case 2
      with assms prices_unsuccessful [of m "''100''"] show ?thesis by auto
    qed
    with Inl show ?thesis by simp
  next
    case (Inr r)
    then obtain m where "prices m (btcResponse e) = Inr (snd r)"
      using getNewPrice_Inr_prices [of e "fst r" "snd r"] by auto
    with assms prices_unsuccessful [of m "''100''"] show ?thesis by simp
  qed
next
  assume "fst (getNewPrice e) = Inl BTC_response_invalid"
  then have "snd (getNewPrice e) \<noteq> 0"
    using getNewPrice_no_reading [of e] by auto
  then show "1 \<le> snd (getNewPrice e)" by simp
next
  assume a: "transport_ok e \<and> mwcResponse e = Document (JArray (xs @ [JObject fs])) \<and>
          map_of fs ''date'' = Some (JInt d) \<and> min_seconds \<le> d \<and> d \<le> max_seconds \<and>
          map_of fs ''price'' = Some (JString s) \<and> set_price (c_str s) \<noteq> None"
  then obtain x where x: "set_price (get_c_str (at_key (JObject fs) ''price'')) = Some x"
    by (auto simp: get_c_str_def at_key_def)
  have "prices (JObject fs) (Document (ticker False ''100'')) = Inl BTC_response_invalid"
    using x by (rule prices_BTC_response_invalid) (simp add: ticker_def at_key_def get_bool_def)
  moreover have "- (2 ^ 63) \<le> d" "d < 2 ^ 63"
    using a by (simp_all add: seconds_range)
  ultimately show "getNewPrice e =
      (Inl BTC_response_invalid, if now_compared e < d * ticks_per_second then 2 else 1)"
    using a assms by (simp add: getNewPrice_last_observation [of e xs fs d s])
qed

theorem unsuccessful_feed_B_witness:
  "getNewPrice (responses (JArray [observation 1800000000 ''2.5''])
     (ticker False ''100'') 1762000000000000000 1762000000000000001) =
   (Inl BTC_response_invalid, 2)"
proof -
  let ?e = "responses (JArray [observation 1800000000 ''2.5''])
     (ticker False ''100'') 1762000000000000000 1762000000000000001"
  have "set_price (c_str ''2.5'') \<noteq> None"
    by (simp add: c_str_def set_price_None parse_2_5 price_chars_ok_def isdigit_def)
  moreover have "transport_ok ?e" "btcResponse ?e = Document (ticker False ''100'')"
    "mwcResponse ?e = Document (JArray ([] @
        [JObject [(''date'', JInt 1800000000), (''price'', JString ''2.5'')]]))"
    by (simp_all add: transport_ok_def responses_def observation_def)
  ultimately show ?thesis
    using unsuccessful_feed_B [of ?e "[]"
        "[(''date'', JInt 1800000000), (''price'', JString ''2.5'')]" 1800000000 "''2.5''"]
    by (simp add: seconds_range responses_def ticks_per_second_def)
qed

subsection \<open>C3: characters that are not digits or points\<close>

lemma two_points_not_decimal_string:
  "2 \<le> count_list p CHR ''.'' \<Longrightarrow> \<not> decimal_string p"
  by (simp add: decimal_string_loop)

lemma other_character_refused:
  "\<exists>c \<in> set p. \<not> isdigit c \<and> c \<noteq> CHR ''.'' \<Longrightarrow> \<not> price_chars_ok p"
  by (auto simp: price_chars_ok_def list_all_iff)

text \<open>No result is returned with a price that is refused, in feed A or in feed B.\<close>

lemma refused_price_no_result:
  assumes "set_price p = None"
    and "(mwcResponse e = Document (JArray (xs @ [m])) \<and>
          get_c_str (at_key m ''price'') = p) \<or>
         (btcResponse e = Document j \<and> get_c_str (at_key j ''price'') = p)"
  shows "fst (getNewPrice e) \<noteq> Inr r"
proof
  assume r: "fst (getNewPrice e) = Inr r"
  from assms(2) show False
  proof
    assume a: "mwcResponse e = Document (JArray (xs @ [m])) \<and>
          get_c_str (at_key m ''price'') = p"
    with r have "prices m (btcResponse e) = Inr (snd r)"
      using getNewPrice_Inr [of e "fst r" "snd r" xs m] by simp
    with a assms(1) show False by (simp add: prices_MWC_price_invalid)
  next
    assume a: "btcResponse e = Document j \<and> get_c_str (at_key j ''price'') = p"
    from r obtain m' where "prices m' (btcResponse e) = Inr (snd r)"
      using getNewPrice_Inr_prices [of e "fst r" "snd r"] by auto
    from prices_Inr [OF this] a assms(1) show False by auto
  qed
qed

text \<open>
  C3 as stated fails: the string \<open>1.2.3\<close> has two points and passes the character
  loop; it is \<open>mpfr_set_str\<close> that refuses it.
\<close>

theorem two_points_counterexample:
  "price_chars_ok ''1.2.3'' \<and> mpfr_set_str ''1.2.3'' = None \<and> set_price ''1.2.3'' = None"
  by (simp add: price_chars_ok_def isdigit_def mpfr_set_str_def set_price_def)

text \<open>
  C3, amended. The price is the C string that the code reads. If it holds a character
  that is neither an ASCII digit nor a point, the character loop refuses it, whatever
  the numeric parse would say. If it consists of digits and points with two or more
  points, it passes the character loop and is refused by the parse. In both cases the
  exception is "price is invalid" of the feed (for feed B when feed A has passed and
  the response of feed B has the right shape), and no result is returned.
\<close>

theorem price_characters:
  assumes "(\<exists>c \<in> set p. \<not> isdigit c \<and> c \<noteq> CHR ''.'') \<or>
           (price_chars_ok p \<and> 2 \<le> count_list p CHR ''.'')"
  shows "((\<exists>c \<in> set p. \<not> isdigit c \<and> c \<noteq> CHR ''.'') \<longrightarrow> \<not> price_chars_ok p) \<and>
         (price_chars_ok p \<and> 2 \<le> count_list p CHR ''.'' \<longrightarrow> mpfr_set_str p = None) \<and>
         set_price p = None \<and>
         (get_c_str (at_key m ''price'') = p \<longrightarrow> prices m btc = Inl MWC_price_invalid) \<and>
         (set_price (get_c_str (at_key m ''price'')) = Some x \<and> is_object j \<and>
          at_key j ''success'' = Some (JBool True) \<and> is_string (at_key j ''price'') \<and>
          get_c_str (at_key j ''price'') = p \<longrightarrow>
            prices m (Document j) = Inl BTC_price_invalid) \<and>
         (mwcResponse e = Document (JArray (xs @ [m])) \<and>
          get_c_str (at_key m ''price'') = p \<longrightarrow> (\<forall>r. fst (getNewPrice e) \<noteq> Inr r)) \<and>
         (btcResponse e = Document j \<and> get_c_str (at_key j ''price'') = p \<longrightarrow>
            (\<forall>r. fst (getNewPrice e) \<noteq> Inr r))"
proof -
  have 1: "(\<exists>c \<in> set p. \<not> isdigit c \<and> c \<noteq> CHR ''.'') \<longrightarrow> \<not> price_chars_ok p"
    by (simp add: other_character_refused)
  have 2: "price_chars_ok p \<and> 2 \<le> count_list p CHR ''.'' \<longrightarrow> mpfr_set_str p = None"
    using set_price_not_decimal_string(1) [of p] two_points_not_decimal_string [of p]
    by blast
  have n: "set_price p = None"
    using assms 1 2 by (auto simp: set_price_def)
  have 3: "get_c_str (at_key m ''price'') = p \<longrightarrow> prices m btc = Inl MWC_price_invalid"
    using n by (simp add: prices_MWC_price_invalid)
  have 4: "set_price (get_c_str (at_key m ''price'')) = Some x \<and> is_object j \<and>
          at_key j ''success'' = Some (JBool True) \<and> is_string (at_key j ''price'') \<and>
          get_c_str (at_key j ''price'') = p \<longrightarrow>
            prices m (Document j) = Inl BTC_price_invalid"
    using n by (auto intro: prices_BTC_price_invalid)
  have 5: "mwcResponse e = Document (JArray (xs @ [m])) \<and>
          get_c_str (at_key m ''price'') = p \<longrightarrow> (\<forall>r. fst (getNewPrice e) \<noteq> Inr r)"
    using refused_price_no_result [OF n, of e xs m j] by blast
  have 6: "btcResponse e = Document j \<and> get_c_str (at_key j ''price'') = p \<longrightarrow>
            (\<forall>r. fst (getNewPrice e) \<noteq> Inr r)"
    using refused_price_no_result [OF n, of e xs m j] by blast
  from 1 2 n 3 4 5 6 show ?thesis by blast
qed

theorem price_characters_witness:
  "\<not> price_chars_ok ''1e5'' \<and>
   fst (getNewPrice (responses (JArray [observation 1700000000 ''1e5''])
     (ticker True ''4'') 1762000000000000000 1762000000000000001)) = Inl MWC_price_invalid \<and>
   price_chars_ok ''4..'' \<and> mpfr_set_str ''4..'' = None \<and>
   fst (getNewPrice (responses (JArray [observation 1700000000 ''2.5''])
     (ticker True ''4..'') 1762000000000000000 1762000000000000001)) = Inl BTC_price_invalid"
proof -
  have x: "set_price ''2.5'' = Some (10 * 2 ^ 252, - 254)"
    by (simp add: set_price_Some parse_2_5 price_chars_ok_def isdigit_def)
  have a: "get_c_str (at_key (observation 1700000000 s) ''price'') = c_str s" for s
    by (simp add: observation_def at_key_def get_c_str_def)
  have b: "is_object (ticker True s) \<and> at_key (ticker True s) ''success'' = Some (JBool True) \<and>
         is_string (at_key (ticker True s) ''price'') \<and>
         get_c_str (at_key (ticker True s) ''price'') = c_str s" for s
    by (simp add: ticker_def at_key_def get_c_str_def is_object_def is_string_def)
  have h1: "(\<exists>c \<in> set ''1e5''. \<not> isdigit c \<and> c \<noteq> CHR ''.'') \<or>
           (price_chars_ok ''1e5'' \<and> 2 \<le> count_list ''1e5'' CHR ''.'')"
    by (simp add: isdigit_def)
  have h2: "(\<exists>c \<in> set ''4..''. \<not> isdigit c \<and> c \<noteq> CHR ''.'') \<or>
           (price_chars_ok ''4..'' \<and> 2 \<le> count_list ''4..'' CHR ''.'')"
    by (simp add: price_chars_ok_def isdigit_def)
  have 1: "\<not> price_chars_ok ''1e5'' \<and>
     prices (observation 1700000000 ''1e5'') (Document (ticker True ''4'')) =
       Inl MWC_price_invalid"
    using price_characters [OF h1, of "observation 1700000000 ''1e5''"
        "Document (ticker True ''4'')"]
    by (simp add: a c_str_def isdigit_def)
  have 2: "price_chars_ok ''4..'' \<and> mpfr_set_str ''4..'' = None \<and>
     prices (observation 1700000000 ''2.5'') (Document (ticker True ''4..'')) =
       Inl BTC_price_invalid"
    using price_characters [OF h2, of "observation 1700000000 ''2.5''" _
        "(10 * 2 ^ 252, - 254)" "ticker True ''4..''"] x
    by (simp add: a b c_str_def price_chars_ok_def isdigit_def)
  from 1 2 show ?thesis
    by (simp add: getNewPrice_single_observation seconds_range)
qed

text \<open>
  Not part of C3: a JSON string with an embedded NUL is read up to the NUL only, so the
  characters after it are not looked at.
\<close>

lemma embedded_NUL_accepted:
  "c_str [CHR ''2'', CHR ''.'', CHR ''5'', CHR 0x00, CHR ''x''] = ''2.5'' \<and>
   prices (observation d [CHR ''2'', CHR ''.'', CHR ''5'', CHR 0x00, CHR ''x''])
     (Document (ticker True ''4'')) = Inr ''10''"
proof -
  have "prices (observation d [CHR ''2'', CHR ''.'', CHR ''5'', CHR 0x00, CHR ''x''])
     (Document (ticker True ''4'')) = Inr ''10''"
    by (rule prices_eqI [where a = "''2.5''" and b = "''4''" and p = 1
          and r = "''10.0''", OF _ _ parse_2_5 _ _ _ _ _ _ parse_4])
       (simp add: observation_def ticker_def get_c_str_def c_str_def at_key_def is_object_def
          price_chars_ok_def isdigit_def fraction_length_def add_precision_def INT_MAX_def
          product_2_5_4 [simplified] render_10_0 [simplified] canonicalize_10_0)+
  then show ?thesis by (simp add: c_str_def)
qed

subsection \<open>C10: strings of digits and points that are no numbers\<close>





subsection \<open>C6: precision, rendering and canonical form of the product\<close>

text \<open>The rounding is to the nearest integer, and a tie goes to the even one.\<close>

lemma round_half_even_nearest:
  assumes "0 < b"
  shows "\<bar>2 * (int (round_half_even a b) * int b - int a)\<bar> \<le> int b \<and>
         (\<bar>2 * (int (round_half_even a b) * int b - int a)\<bar> = int b \<longrightarrow>
            even (round_half_even a b))"
proof -
  define q r where "q = a div b" and "r = a mod b"
  have a: "int a = int q * int b + int r"
    unfolding q_def r_def by (metis div_mult_mod_eq of_nat_add of_nat_mult)
  have r: "r < b" using assms by (simp add: r_def)
  consider "2 * r < b" | "b < 2 * r" | "2 * r = b" by linarith
  then show ?thesis
  proof cases
    case 1
    then have "round_half_even a b = q" by (simp add: round_half_even_def q_def r_def)
    with 1 a show ?thesis by simp
  next
    case 2
    then have "round_half_even a b = q + 1"
      by (simp add: round_half_even_def q_def r_def)
    with 2 a r show ?thesis by (simp add: algebra_simps)
  next
    case 3
    then have u: "round_half_even a b = (if even q then q else q + 1)"
      by (simp add: round_half_even_def q_def r_def)
    from 3 have "int b = 2 * int r" by simp
    with u a show ?thesis by (auto simp: algebra_simps)
  qed
qed

lemma add_precision_sum:
  "m + n < 2 ^ 32 \<Longrightarrow> add_precision (add_precision 0 m) n = m + n"
  by (simp add: add_precision_def)

text \<open>
  C6 as stated fails: for the decimal strings \<open>2.5\<close> and \<open>4\<close> the canonical form of
  the product is \<open>10\<close>, which ends with a zero although the value is not zero.
\<close>

theorem trailing_zero_counterexample:
  "decimal_string ''2.5'' \<and> decimal_string ''4'' \<and>
   fst (getNewPrice (responses (JArray [observation 1700000000 ''2.5''])
     (ticker True ''4'') 1762000000000000000 1762000000000000001)) =
   Inr (1700000000000000000, ''10'') \<and>
   last ''10'' = CHR ''0''"
  by (simp add: getNewPrice_single_observation seconds_range prices_2_5_4
      ticks_per_second_def decimal_string_loop price_chars_ok_def isdigit_def)

text \<open>
  C6, amended. Let \<open>a\<close> and \<open>b\<close> be decimal strings with a digit other than zero, the
  prices of feed A and of a well-shaped feed B, with \<open>m\<close> and \<open>n\<close> fractional digits
  and \<open>m + n < 2 ^ 32\<close>. Then both are accepted, the precision is \<open>m + n\<close>, and the
  product is rendered as digits followed, when \<open>m + n\<close> is positive, by a point and
  exactly \<open>m + n\<close> digits; the digits read as a number are the product times
  \<open>10 ^ (m + n)\<close> rounded to the nearest integer, ties to even. The canonical form is
  not empty, has no trailing point, and has no trailing zero after a point. It is
  what the stage returns, unless the rendering is longer than \<open>INT_MAX\<close>.
\<close>

theorem product_rendering:
  assumes "decimal_string a" and "\<exists>c \<in> set a. isdigit c \<and> c \<noteq> CHR ''0''"
    and "decimal_string b" and "\<exists>c \<in> set b. isdigit c \<and> c \<noteq> CHR ''0''"
    and "get_c_str (at_key mostRecentPrice ''price'') = a"
    and "is_object json" and "at_key json ''success'' = Some (JBool True)"
    and "is_string (at_key json ''price'')" and "get_c_str (at_key json ''price'') = b"
    and "p = fracDigits a + fracDigits b" and "p < 2 ^ 32"
  shows "\<exists>x y r c w f u.
           set_price a = Some x \<and> set_price b = Some y \<and>
           add_precision (add_precision 0 (fraction_length a)) (fraction_length b) = p \<and>
           r = format_fixed p (mpfr_mul x y) \<and>
           r = w @ (if p = 0 then [] else CHR ''.'' # f) \<and>
           w \<noteq> [] \<and> list_all isdigit w \<and> list_all isdigit f \<and> length f = p \<and>
           digits_value 0 (w @ f) = u \<and>
           (case scale2 (fst (mpfr_mul x y) * 10 ^ p) 1 (snd (mpfr_mul x y)) of
              (n, d) \<Rightarrow> u = round_half_even n d \<and> 0 < d \<and>
                \<bar>2 * (int u * int d - int n)\<bar> \<le> int d \<and>
                (\<bar>2 * (int u * int d - int n)\<bar> = int d \<longrightarrow> even u)) \<and>
           canonicalize r = Some c \<and> c \<noteq> [] \<and> last c \<noteq> CHR ''.'' \<and>
           \<not> (CHR ''.'' \<in> set c \<and> last c = CHR ''0'') \<and>
           prices mostRecentPrice (Document json) =
             (if int (length r) \<le> INT_MAX then Inr c else Inl Getting_result_size_failed)"
proof -
  from set_price_decimal_string [OF assms(1,2)]
  obtain x where x: "set_price a = Some x" "0 < fst x" by blast
  from set_price_decimal_string [OF assms(3,4)]
  obtain y where y: "set_price b = Some y" "0 < fst y" by blast
  have fa: "fraction_length a = fracDigits a" and fb: "fraction_length b = fracDigits b"
    using assms(1,3) by (simp_all add: decimal_string_loop fraction_length_fracDigits)
  have p: "add_precision (add_precision 0 (fraction_length a)) (fraction_length b) = p"
    using assms(10,11) by (simp add: fa fb add_precision_sum)
  define z where "z = mpfr_mul x y"
  define r where "r = format_fixed p z"
  obtain n d where nd: "scale2 (fst z * 10 ^ p) 1 (snd z) = (n, d)"
    by (cases "scale2 (fst z * 10 ^ p) 1 (snd z)")
  have d: "0 < d" using nd by (auto simp: scale2_def split: if_splits)
  from format_fixed_shape [OF nd]
  obtain w f where shape: "r = w @ (if p = 0 then [] else CHR ''.'' # f)"
    "w \<noteq> []" "list_all isdigit w" "list_all isdigit f" "length f = p"
    "digits_value 0 (w @ f) = round_half_even n d"
    unfolding r_def by blast
  from canonicalize_format_fixed [of p z]
  obtain c where c: "canonicalize r = Some c" "c \<noteq> []" "last c \<noteq> CHR ''.''"
    "\<not> (CHR ''.'' \<in> set c \<and> last c = CHR ''0'')"
    unfolding r_def by blast
  have "compose_result x y p =
      (if int (length r) \<le> INT_MAX then Inr c else Inl Getting_result_size_failed)"
    using x(2) y(2) c(1) by (simp add: compose_result_pos r_def z_def)
  then have result: "prices mostRecentPrice (Document json) =
      (if int (length r) \<le> INT_MAX then Inr c else Inl Getting_result_size_failed)"
    using x(1) y(1) p assms(5-9) by (simp add: prices_def is_bool_def get_bool_def)
  have near: "case scale2 (fst (mpfr_mul x y) * 10 ^ p) 1 (snd (mpfr_mul x y)) of
      (n, d) \<Rightarrow> round_half_even n d = round_half_even n d \<and> 0 < d \<and>
        \<bar>2 * (int (round_half_even n d) * int d - int n)\<bar> \<le> int d \<and>
        (\<bar>2 * (int (round_half_even n d) * int d - int n)\<bar> = int d \<longrightarrow>
           even (round_half_even n d))"
    using nd d round_half_even_nearest [OF d, of n] by (simp add: z_def)
  show ?thesis
    apply (rule exI [of _ x], rule exI [of _ y], rule exI [of _ r], rule exI [of _ c],
        rule exI [of _ w], rule exI [of _ f], rule exI [of _ "round_half_even n d"])
    using x(1) y(1) p shape c result near nd
    by (simp add: r_def z_def)
qed

theorem product_rendering_witness:
  "prices (observation 1700000000 ''2.5'') (Document (ticker True ''4'')) = Inr ''10''"
proof -
  have d: "decimal_string ''2.5''" "\<exists>c \<in> set ''2.5''. isdigit c \<and> c \<noteq> CHR ''0''"
    "decimal_string ''4''" "\<exists>c \<in> set ''4''. isdigit c \<and> c \<noteq> CHR ''0''"
    by (simp_all add: decimal_string_loop price_chars_ok_def isdigit_def)
  have a: "get_c_str (at_key (observation 1700000000 ''2.5'') ''price'') = ''2.5''"
    by (simp add: observation_def at_key_def get_c_str_def c_str_def)
  have b: "is_object (ticker True ''4'')"
    "at_key (ticker True ''4'') ''success'' = Some (JBool True)"
    "is_string (at_key (ticker True ''4'') ''price'')"
    "get_c_str (at_key (ticker True ''4'') ''price'') = ''4''"
    by (simp_all add: ticker_def at_key_def get_c_str_def is_object_def is_string_def c_str_def)
  have p: "1 = fracDigits ''2.5'' + fracDigits ''4''" "(1::nat) < 2 ^ 32"
    by (simp_all add: fracDigits_def)
  have x: "set_price ''2.5'' = Some (10 * 2 ^ 252, - 254)"
    by (simp add: set_price_Some parse_2_5 price_chars_ok_def isdigit_def)
  have y: "set_price ''4'' = Some (2 ^ 255, - 253)"
    by (simp add: set_price_Some parse_4 price_chars_ok_def isdigit_def)
  from product_rendering [OF d a b p]
  obtain c where "canonicalize (format_fixed 1 (mpfr_mul (10 * 2 ^ 252, - 254) (2 ^ 255, - 253))) =
      Some c"
    and "prices (observation 1700000000 ''2.5'') (Document (ticker True ''4'')) =
      (if int (length (format_fixed 1 (mpfr_mul (10 * 2 ^ 252, - 254) (2 ^ 255, - 253))))
            \<le> INT_MAX
       then Inr c else Inl Getting_result_size_failed)"
    using x y by auto
  then show ?thesis
    by (simp add: product_2_5_4 [simplified] render_10_0 [simplified] canonicalize_10_0
        INT_MAX_def)
qed

end
